theory Spec2Isabelle
  imports Complex_Main
begin

section \<open>Paths and the file tree\<close>

text \<open>
  A path is absolute and normalized: the list of its components from the root of the
  file system. \<^verbatim>\<open>KNOWLEDGE_BASES_ROOT_DIR\<close> is such a path.
\<close>

type_synonym path = "string list"

text \<open>
  A directory entry as \<^verbatim>\<open>fsp.readdir(dir, { withFileTypes: true })\<close> reports it.
  A file carries what the two reads of the source observe: the digest that
  \<^verbatim>\<open>calculateSHA256\<close> returns and the text that \<^verbatim>\<open>fsp.readFile(p, 'utf-8')\<close>
  returns, each \<open>None\<close> when the read throws. \<open>BadDirEnt\<close> is a directory whose
  listing throws; \<open>OtherEnt\<close> is neither \<^verbatim>\<open>isDirectory()\<close> nor \<^verbatim>\<open>isFile()\<close>.
\<close>

datatype dirent =
    FileEnt string "string option" "string option"
  | DirEnt string "dirent list"
  | BadDirEnt string
  | OtherEnt string

fun dirent_name :: "dirent \<Rightarrow> string" where
  "dirent_name (FileEnt n d c) = n"
| "dirent_name (DirEnt n sub) = n"
| "dirent_name (BadDirEnt n) = n"
| "dirent_name (OtherEnt n) = n"

text \<open>\<^verbatim>\<open>name.startsWith('.')\<close>\<close>

fun startsWith_dot :: "string \<Rightarrow> bool" where
  "startsWith_dot [] = False"
| "startsWith_dot (c # cs) = (c = CHR ''.'')"

fun find_entry :: "string \<Rightarrow> dirent list \<Rightarrow> dirent option" where
  "find_entry n [] = None"
| "find_entry n (e # es) = (if dirent_name e = n then Some e else find_entry n es)"

fun fs_lookup :: "dirent list \<Rightarrow> path \<Rightarrow> dirent option" where
  "fs_lookup es [] = None"
| "fs_lookup es [n] = find_entry n es"
| "fs_lookup es (n # m # ms) =
     (case find_entry n es of
        Some (DirEnt _ sub) \<Rightarrow> fs_lookup sub (m # ms)
      | _ \<Rightarrow> None)"

text \<open>
  \<^verbatim>\<open>traverse\<close> of \<^verbatim>\<open>getFilesRecursively\<close>: entries in listing order, hidden names
  skipped, directories entered depth-first, files pushed; a listing that throws is
  logged and contributes nothing.
\<close>

fun traverse :: "path \<Rightarrow> dirent list \<Rightarrow> path list" where
  "traverse currentPath [] = []"
| "traverse currentPath (FileEnt n d c # es) =
     (if startsWith_dot n then [] else [currentPath @ [n]]) @ traverse currentPath es"
| "traverse currentPath (DirEnt n sub # es) =
     (if startsWith_dot n then [] else traverse (currentPath @ [n]) sub) @ traverse currentPath es"
| "traverse currentPath (BadDirEnt n # es) = traverse currentPath es"
| "traverse currentPath (OtherEnt n # es) = traverse currentPath es"

text \<open>The listing of a directory path, \<open>None\<close> when \<^verbatim>\<open>fsp.readdir\<close> throws there.\<close>

definition readdir :: "dirent list option \<Rightarrow> path \<Rightarrow> dirent list option" where
  "readdir tree p =
     (case tree of
        None \<Rightarrow> None
      | Some es \<Rightarrow>
          (if p = [] then Some es
           else (case fs_lookup es p of Some (DirEnt _ sub) \<Rightarrow> Some sub | _ \<Rightarrow> None)))"

definition getFilesRecursively :: "dirent list option \<Rightarrow> path \<Rightarrow> path list" where
  "getFilesRecursively tree dirPath =
     (case readdir tree dirPath of None \<Rightarrow> [] | Some es \<Rightarrow> traverse dirPath es)"

text \<open>
  \<^verbatim>\<open>path.join(dir, name)\<close> (POSIX): the name is cut at every \<^verbatim>\<open>/\<close>, empty segments
  and \<^verbatim>\<open>.\<close> are dropped, and \<^verbatim>\<open>..\<close> removes the component before it (at the root of
  the file system there is none to remove).
\<close>

fun segments :: "string \<Rightarrow> string list" where
  "segments [] = [[]]"
| "segments (c # cs) =
     (if c = CHR ''/'' then [] # segments cs
      else (case segments cs of [] \<Rightarrow> [[c]] | seg # segs \<Rightarrow> (c # seg) # segs))"

fun resolve :: "path \<Rightarrow> string list \<Rightarrow> path" where
  "resolve p [] = p"
| "resolve p (seg # segs) =
     (if seg = [] \<or> seg = ''.'' then resolve p segs
      else if seg = ''..'' then resolve (butlast p) segs
      else resolve (p @ [seg]) segs)"

definition path_join :: "path \<Rightarrow> string \<Rightarrow> path" where
  "path_join p name = resolve p (segments name)"

section \<open>Configuration and errors\<close>

datatype errno = EACCES | EPERM | EROFS | ENOENT | ENOTDIR | EISDIR | EIO | ENOSPC

definition isPermissionError :: "errno \<Rightarrow> bool" where
  "isPermissionError code \<longleftrightarrow> code = EACCES \<or> code = EPERM \<or> code = EROFS"

datatype url_status = Pending | Approved | Rejected

datatype error =
    PermissionDenied string
  | FsError errno
  | MissingApiKey string
  | NotInitialized
  | ReadFailed path
  | ReaddirFailed
  | ChunkingFailed path
  | EmbeddingFailed
  | NoPendingUrl string
  | WrongStatus string url_status
  | FetchFailed string
  | ConvertFailed string

text \<open>
  \<^verbatim>\<open>handleFsOperationError\<close> always throws: a permission error is replaced by a
  "Permission denied while attempting to <action>" error, any other error is rethrown.
\<close>

definition handleFsOperationError :: "string \<Rightarrow> errno \<Rightarrow> error" where
  "handleFsOperationError action e =
     (if isPermissionError e then PermissionDenied action else FsError e)"

text \<open>\<^verbatim>\<open>process.env.X || fallback\<close>: an unset or empty variable gives the fallback.\<close>

definition or_default :: "string option \<Rightarrow> string \<Rightarrow> string" where
  "or_default v d = (case v of None \<Rightarrow> d | Some x \<Rightarrow> if x = [] then d else x)"

record process_env =
  env_EMBEDDING_PROVIDER :: "string option"
  env_HUGGINGFACE_MODEL_NAME :: "string option"
  env_OLLAMA_BASE_URL :: "string option"
  env_OLLAMA_MODEL :: "string option"
  env_OPENAI_MODEL_NAME :: "string option"
  env_OPENAI_API_KEY :: "string option"
  env_HUGGINGFACE_API_KEY :: "string option"

definition EMBEDDING_PROVIDER :: "process_env \<Rightarrow> string" where
  "EMBEDDING_PROVIDER pe = or_default (env_EMBEDDING_PROVIDER pe) ''huggingface''"

definition HUGGINGFACE_MODEL_NAME :: "process_env \<Rightarrow> string" where
  "HUGGINGFACE_MODEL_NAME pe =
     or_default (env_HUGGINGFACE_MODEL_NAME pe) ''sentence-transformers/all-MiniLM-L6-v2''"

definition OLLAMA_BASE_URL :: "process_env \<Rightarrow> string" where
  "OLLAMA_BASE_URL pe = or_default (env_OLLAMA_BASE_URL pe) ''http://localhost:11434''"

definition OLLAMA_MODEL :: "process_env \<Rightarrow> string" where
  "OLLAMA_MODEL pe = or_default (env_OLLAMA_MODEL pe) ''dengcao/Qwen3-Embedding-0.6B:Q8_0''"

definition OPENAI_MODEL_NAME :: "process_env \<Rightarrow> string" where
  "OPENAI_MODEL_NAME pe = or_default (env_OPENAI_MODEL_NAME pe) ''text-embedding-ada-002''"

text \<open>\<^verbatim>\<open>!key\<close>: the variable is unset or empty.\<close>

definition missing :: "string option \<Rightarrow> bool" where
  "missing v \<longleftrightarrow> (case v of None \<Rightarrow> True | Some x \<Rightarrow> x = [])"

section \<open>FaissIndexManager\<close>

record document =
  pageContent :: string
  source :: path

datatype embeddings =
    OllamaEmbeddings string string
  | OpenAIEmbeddings string string
  | HuggingFaceInferenceEmbeddings string string

record manager =
  embeddingProvider :: string
  modelName :: string
  embedder :: embeddings

definition new_FaissIndexManager :: "process_env \<Rightarrow> error + manager" where
  "new_FaissIndexManager pe =
     (if EMBEDDING_PROVIDER pe = ''ollama'' then
        Inr \<lparr>embeddingProvider = EMBEDDING_PROVIDER pe, modelName = OLLAMA_MODEL pe,
             embedder = OllamaEmbeddings (OLLAMA_BASE_URL pe) (OLLAMA_MODEL pe)\<rparr>
      else if EMBEDDING_PROVIDER pe = ''openai'' then
        (if missing (env_OPENAI_API_KEY pe) then Inl (MissingApiKey ''OPENAI_API_KEY'')
         else Inr \<lparr>embeddingProvider = EMBEDDING_PROVIDER pe, modelName = OPENAI_MODEL_NAME pe,
                   embedder = OpenAIEmbeddings (the (env_OPENAI_API_KEY pe)) (OPENAI_MODEL_NAME pe)\<rparr>)
      else
        (if missing (env_HUGGINGFACE_API_KEY pe) then Inl (MissingApiKey ''HUGGINGFACE_API_KEY'')
         else Inr \<lparr>embeddingProvider = EMBEDDING_PROVIDER pe, modelName = HUGGINGFACE_MODEL_NAME pe,
                   embedder = HuggingFaceInferenceEmbeddings (the (env_HUGGINGFACE_API_KEY pe))
                     (HUGGINGFACE_MODEL_NAME pe)\<rparr>))"

text \<open>
  What the managers do, in order: the read of a file's text, the error line logged when
  that read fails, the embedding call (made by \<^verbatim>\<open>FaissStore.fromTexts\<close> or
  \<^verbatim>\<open>addDocuments\<close>), the call of \<^verbatim>\<open>faissIndex.save\<close> and its success, the write of a
  hash record, of a markdown file and of the pending list.
\<close>

datatype event =
    ContentRead path
  | LoggedError path
  | EmbedCall "document list"
  | SaveCall
  | StoreSaved
  | HashWritten path string
  | MarkdownWritten path
  | PendingSaved

datatype score_filter = ScoreLte real

record pending_url =
  url_id :: string
  url :: string
  knowledge_base :: string
  reason :: string
  suggested_at :: string
  status :: url_status

text \<open>
  The pending-URLs file: absent, present but unreadable, holding text that
  \<^verbatim>\<open>JSON.parse\<close> rejects, or holding the JSON array of the records.
\<close>

datatype pending_file = Missing | Unreadable | Malformed string | Listing "pending_url list"

text \<open>
  The state: the manager's in-memory handle \<^verbatim>\<open>this.faissIndex\<close> (a store is the
  list of documents it holds) and the files the code reads and writes: the file tree
  (from the root of the file system), \<^verbatim>\<open>faiss.index\<close>, \<^verbatim>\<open>model_name.txt\<close>, the hash
  records under \<^verbatim>\<open><kb>/.index\<close> (by their path) and the pending-URLs file. The store
  file, the model-name file and the hash records are kept apart from the tree, in fields
  of their own: they live in hidden directories (\<^verbatim>\<open>.faiss\<close> by default, \<^verbatim>\<open>.index\<close>),
  which the scan of a directory does not enter. \<open>trace\<close> records, in order, the reads,
  log lines and calls the claims speak about.
\<close>

record state =
  faissIndex :: "document list option"
  fs_tree :: "dirent list option"
  faiss_dir :: bool
  index_file :: "document list option"
  model_name_file :: "string option"
  hash_files :: "path \<rightharpoonup> string"
  pending_urls_file :: pending_file
  trace :: "event list"

text \<open>
  The collaborators and the faults of the environment. A fault field says that the
  named operation throws (with that error code) when the code performs it; the ones of
  the scan are asked with the path of the file being processed. \<open>root_dir\<close> is
  \<^verbatim>\<open>KNOWLEDGE_BASES_ROOT_DIR\<close>. The store is saved by \<^verbatim>\<open>FaissStore.save\<close> as a
  directory named \<^verbatim>\<open>faiss.index\<close>, so \<^verbatim>\<open>fsp.unlink\<close> of that path always throws;
  \<open>unlink_errno\<close> is the code it throws with (\<open>EISDIR\<close> on Linux, \<open>EPERM\<close> on
  macOS). For a directory that
  the code creates when it is absent (\<open>mkdir_faiss_dir\<close>, \<open>mkdir_index_dir\<close>) the fault
  says that the directory is absent and cannot be created. The splitter is the
  \<^verbatim>\<open>MarkdownTextSplitter\<close> (\<open>None\<close> when it throws), and
  \<open>similaritySearchWithScore\<close> is the store's query.
\<close>

record env =
  root_dir :: path
  mkdir_faiss_dir :: "errno option"
  read_model_name_fails :: bool
  unlink_errno :: errno
  load_index :: "errno option"
  write_model_name :: "errno option"
  mkdir_index_dir :: "path \<Rightarrow> errno option"
  splitter :: "string \<Rightarrow> string list option"
  embed_fails :: "path \<Rightarrow> bool"
  save_index :: "path \<Rightarrow> errno option"
  write_hash :: "path \<Rightarrow> errno option"
  rebuild_embed_fails :: bool
  rebuild_save_index :: "errno option"
  similaritySearchWithScore ::
    "document list \<Rightarrow> string \<Rightarrow> nat \<Rightarrow> score_filter \<Rightarrow> (document \<times> real) list"

subsection \<open>initialize\<close>

definition read_storedModelName :: "env \<Rightarrow> state \<Rightarrow> string option" where
  "read_storedModelName ev s =
     (case model_name_file s of
        None \<Rightarrow> None
      | Some txt \<Rightarrow> if read_model_name_fails ev then None else Some txt)"

text \<open>\<^verbatim>\<open>storedModelName && storedModelName !== this.modelName\<close>\<close>

definition model_changed :: "manager \<Rightarrow> string option \<Rightarrow> bool" where
  "model_changed m stored \<longleftrightarrow>
     (case stored of None \<Rightarrow> False | Some n \<Rightarrow> n \<noteq> [] \<and> n \<noteq> modelName m)"

definition init_load_and_persist :: "manager \<Rightarrow> env \<Rightarrow> state \<Rightarrow> error option \<times> state" where
  "init_load_and_persist m ev s =
     (case index_file s of
        Some st \<Rightarrow>
          (case load_index ev of
             Some e \<Rightarrow> (Some (handleFsOperationError ''load FAISS index from'' e), s)
           | None \<Rightarrow>
               (case write_model_name ev of
                  Some e \<Rightarrow>
                    (Some (handleFsOperationError ''persist embedding model metadata in'' e),
                     s\<lparr>faissIndex := Some st\<rparr>)
                | None \<Rightarrow>
                    (None, s\<lparr>faissIndex := Some st, model_name_file := Some (modelName m)\<rparr>)))
      | None \<Rightarrow>
          (case write_model_name ev of
             Some e \<Rightarrow>
               (Some (handleFsOperationError ''persist embedding model metadata in'' e),
                s\<lparr>faissIndex := None\<rparr>)
           | None \<Rightarrow> (None, s\<lparr>faissIndex := None, model_name_file := Some (modelName m)\<rparr>)))"

definition init_check_model :: "manager \<Rightarrow> env \<Rightarrow> state \<Rightarrow> error option \<times> state" where
  "init_check_model m ev s =
     (if model_changed m (read_storedModelName ev s) then
        (case index_file s of
           Some st \<Rightarrow> (Some (handleFsOperationError ''delete stale FAISS index'' (unlink_errno ev)), s)
         | None \<Rightarrow> init_load_and_persist m ev (s\<lparr>faissIndex := None\<rparr>))
      else init_load_and_persist m ev s)"

definition initialize :: "manager \<Rightarrow> env \<Rightarrow> state \<Rightarrow> error option \<times> state" where
  "initialize m ev s =
     (if \<not> faiss_dir s then
        (case mkdir_faiss_dir ev of
           Some e \<Rightarrow> (Some (handleFsOperationError ''create FAISS index directory'' e), s)
         | None \<Rightarrow> init_check_model m ev (s\<lparr>faiss_dir := True\<rparr>))
      else init_check_model m ev s)"

subsection \<open>similaritySearch\<close>

record search_result =
  res_pageContent :: string
  res_source :: path
  score :: real

text \<open>\<^verbatim>\<open>([doc, score]) => ({ ...doc, score })\<close>\<close>

definition with_score :: "document \<times> real \<Rightarrow> search_result" where
  "with_score p = \<lparr>res_pageContent = pageContent (fst p), res_source = source (fst p), score = snd p\<rparr>"

text \<open>\<^verbatim>\<open>threshold: number = 2\<close>\<close>

definition threshold_or_default :: "real option \<Rightarrow> real" where
  "threshold_or_default threshold = (case threshold of None \<Rightarrow> 2 | Some t \<Rightarrow> t)"

text \<open>\<^verbatim>\<open>this.faissIndex.similaritySearchWithScore(query, k, { score: { $lte: threshold } })\<close>\<close>

definition resultsWithScore ::
  "env \<Rightarrow> document list \<Rightarrow> string \<Rightarrow> nat \<Rightarrow> real option \<Rightarrow> (document \<times> real) list" where
  "resultsWithScore ev st query k threshold =
     similaritySearchWithScore ev st query k (ScoreLte (threshold_or_default threshold))"

definition similaritySearch ::
  "env \<Rightarrow> state \<Rightarrow> string \<Rightarrow> nat \<Rightarrow> real option \<Rightarrow> error + search_result list" where
  "similaritySearch ev s query k threshold =
     (case faissIndex s of
        None \<Rightarrow> Inl NotInitialized
      | Some st \<Rightarrow> Inr (map with_score (resultsWithScore ev st query k threshold)))"

subsection \<open>updateIndex\<close>

definition calculateSHA256 :: "state \<Rightarrow> path \<Rightarrow> string option" where
  "calculateSHA256 s filePath =
     (case fs_tree s of
        None \<Rightarrow> None
      | Some es \<Rightarrow> (case fs_lookup es filePath of Some (FileEnt _ d _) \<Rightarrow> d | _ \<Rightarrow> None))"

definition readFile :: "state \<Rightarrow> path \<Rightarrow> string option" where
  "readFile s filePath =
     (case fs_tree s of
        None \<Rightarrow> None
      | Some es \<Rightarrow> (case fs_lookup es filePath of Some (FileEnt _ _ c) \<Rightarrow> c | _ \<Rightarrow> None))"

text \<open>
  \<^verbatim>\<open>path.relative(knowledgeBasePath, filePath)\<close> for a file below the knowledge base,
  \<^verbatim>\<open>path.dirname\<close> and \<^verbatim>\<open>path.basename\<close> on component lists.
\<close>

definition relativePath :: "path \<Rightarrow> path \<Rightarrow> path" where
  "relativePath knowledgeBasePath filePath = drop (length knowledgeBasePath) filePath"

definition indexDirPath :: "path \<Rightarrow> path \<Rightarrow> path" where
  "indexDirPath knowledgeBasePath filePath =
     knowledgeBasePath @ [''.index''] @ butlast (relativePath knowledgeBasePath filePath)"

definition indexFilePath :: "path \<Rightarrow> path \<Rightarrow> path" where
  "indexFilePath knowledgeBasePath filePath =
     indexDirPath knowledgeBasePath filePath @ [last filePath]"

text \<open>\<^verbatim>\<open>path.extname\<close> of a base name, and \<^verbatim>\<open>toLowerCase\<close> on ASCII letters.\<close>

definition extname :: "string \<Rightarrow> string" where
  "extname base =
     (let suffix = rev (takeWhile (\<lambda>c. c \<noteq> CHR ''.'') (rev base)) in
      if CHR ''.'' \<notin> set base \<or> base = ''..'' \<or> Suc (length suffix) = length base then []
      else CHR ''.'' # suffix)"

definition lower_char :: "char \<Rightarrow> char" where
  "lower_char c =
     (case map_of (zip ''ABCDEFGHIJKLMNOPQRSTUVWXYZ'' ''abcdefghijklmnopqrstuvwxyz'') c of
        Some l \<Rightarrow> l
      | None \<Rightarrow> c)"

definition toLowerCase :: "string \<Rightarrow> string" where
  "toLowerCase = map lower_char"

text \<open>
  The documents of one file: a markdown file goes through the
  \<^verbatim>\<open>MarkdownTextSplitter\<close> (which may throw), any other file is one document.
\<close>

definition createDocuments :: "env \<Rightarrow> path \<Rightarrow> string \<Rightarrow> document list option" where
  "createDocuments ev filePath content =
     (if toLowerCase (extname (last filePath)) = ''.md'' then
        map_option (map (\<lambda>t. \<lparr>pageContent = t, source = filePath\<rparr>)) (splitter ev content)
      else Some [\<lparr>pageContent = content, source = filePath\<rparr>])"

definition log_event :: "event \<Rightarrow> state \<Rightarrow> state" where
  "log_event e s = s\<lparr>trace := trace s @ [e]\<rparr>"

text \<open>
  The embedding call is made by \<^verbatim>\<open>FaissStore.fromTexts\<close> when there is no store yet
  and by \<^verbatim>\<open>addDocuments\<close> otherwise; \<open>SaveCall\<close> is \<^verbatim>\<open>faissIndex.save\<close> being called.
\<close>

definition embed_call :: "document list \<Rightarrow> state \<Rightarrow> state" where
  "embed_call docs s = log_event (EmbedCall docs) s"

definition add_to_store :: "document list \<Rightarrow> state \<Rightarrow> state" where
  "add_to_store docs s =
     s\<lparr>faissIndex := Some (case faissIndex s of None \<Rightarrow> docs | Some st \<Rightarrow> st @ docs)\<rparr>"

definition save_call :: "state \<Rightarrow> state" where
  "save_call s = log_event SaveCall s"

definition store_saved :: "state \<Rightarrow> state" where
  "store_saved s = log_event StoreSaved (s\<lparr>index_file := faissIndex s\<rparr>)"

definition hash_written :: "path \<Rightarrow> string \<Rightarrow> state \<Rightarrow> state" where
  "hash_written p h s = log_event (HashWritten p h) (s\<lparr>hash_files := (hash_files s)(p \<mapsto> h)\<rparr>)"

text \<open>
  The part of the per-file body after the documents were produced: embed and add, save the
  store, then write the hash record.
\<close>

definition indexDocuments ::
  "env \<Rightarrow> path \<Rightarrow> path \<Rightarrow> string \<Rightarrow> document list \<Rightarrow> state \<Rightarrow> error option \<times> state" where
  "indexDocuments ev knowledgeBasePath filePath fileHash documentsToAdd s =
     (if documentsToAdd = [] then (None, s)
      else if embed_fails ev filePath then (Some EmbeddingFailed, embed_call documentsToAdd s)
      else
        (case save_index ev filePath of
           Some e \<Rightarrow>
             (Some (handleFsOperationError ''save FAISS index at'' e),
              save_call (add_to_store documentsToAdd (embed_call documentsToAdd s)))
         | None \<Rightarrow>
             (case write_hash ev filePath of
                Some e \<Rightarrow>
                  (Some (handleFsOperationError ''write file hash metadata to'' e),
                   store_saved (save_call (add_to_store documentsToAdd (embed_call documentsToAdd s))))
              | None \<Rightarrow>
                  (None,
                   hash_written (indexFilePath knowledgeBasePath filePath) fileHash
                     (store_saved
                        (save_call (add_to_store documentsToAdd (embed_call documentsToAdd s))))))))"

text \<open>The body of the loop over \<^verbatim>\<open>filePaths\<close>.\<close>

definition processFile :: "env \<Rightarrow> path \<Rightarrow> path \<Rightarrow> state \<Rightarrow> error option \<times> state" where
  "processFile ev knowledgeBasePath filePath s =
     (case calculateSHA256 s filePath of
        None \<Rightarrow> (Some (ReadFailed filePath), s)
      | Some fileHash \<Rightarrow>
          (case mkdir_index_dir ev (indexDirPath knowledgeBasePath filePath) of
             Some e \<Rightarrow> (Some (handleFsOperationError ''create index metadata directory'' e), s)
           | None \<Rightarrow>
               (if hash_files s (indexFilePath knowledgeBasePath filePath) = Some fileHash then (None, s)
                else
                  (case readFile s filePath of
                     None \<Rightarrow> (None, log_event (LoggedError filePath) (log_event (ContentRead filePath) s))
                   | Some content \<Rightarrow>
                       (case createDocuments ev filePath content of
                          None \<Rightarrow> (Some (ChunkingFailed filePath), log_event (ContentRead filePath) s)
                        | Some documentsToAdd \<Rightarrow>
                            indexDocuments ev knowledgeBasePath filePath fileHash documentsToAdd
                              (log_event (ContentRead filePath) s))))))"

fun processFiles :: "env \<Rightarrow> path \<Rightarrow> path list \<Rightarrow> state \<Rightarrow> error option \<times> state" where
  "processFiles ev knowledgeBasePath [] s = (None, s)"
| "processFiles ev knowledgeBasePath (filePath # filePaths) s =
     (case processFile ev knowledgeBasePath filePath s of
        (Some e, s') \<Rightarrow> (Some e, s')
      | (None, s') \<Rightarrow> processFiles ev knowledgeBasePath filePaths s')"

text \<open>\<^verbatim>\<open>path.join(KNOWLEDGE_BASES_ROOT_DIR, knowledgeBaseName)\<close>\<close>

definition knowledgeBasePath :: "env \<Rightarrow> string \<Rightarrow> path" where
  "knowledgeBasePath ev knowledgeBaseName = path_join (root_dir ev) knowledgeBaseName"

text \<open>
  The loop over \<^verbatim>\<open>knowledgeBases\<close>; the flag is \<^verbatim>\<open>anyFileProcessed\<close>, set as soon as
  a knowledge base has a file.
\<close>

fun processKnowledgeBases ::
  "env \<Rightarrow> string list \<Rightarrow> bool \<Rightarrow> state \<Rightarrow> error option \<times> bool \<times> state" where
  "processKnowledgeBases ev [] anyFileProcessed s = (None, anyFileProcessed, s)"
| "processKnowledgeBases ev (knowledgeBaseName # rest) anyFileProcessed s =
     (if startsWith_dot knowledgeBaseName then processKnowledgeBases ev rest anyFileProcessed s
      else
        (case processFiles ev (knowledgeBasePath ev knowledgeBaseName)
                (getFilesRecursively (fs_tree s) (knowledgeBasePath ev knowledgeBaseName)) s of
           (Some e, s') \<Rightarrow>
             (Some e,
              anyFileProcessed \<or>
                getFilesRecursively (fs_tree s) (knowledgeBasePath ev knowledgeBaseName) \<noteq> [], s')
         | (None, s') \<Rightarrow>
             processKnowledgeBases ev rest
               (anyFileProcessed \<or>
                  getFilesRecursively (fs_tree s) (knowledgeBasePath ev knowledgeBaseName) \<noteq> []) s'))"

text \<open>The rebuild: every file of every scanned knowledge base is read and chunked again.\<close>

fun collectFiles ::
  "env \<Rightarrow> path list \<Rightarrow> document list \<Rightarrow> state \<Rightarrow> error option \<times> document list \<times> state" where
  "collectFiles ev [] allDocuments s = (None, allDocuments, s)"
| "collectFiles ev (filePath # filePaths) allDocuments s =
     (case readFile s filePath of
        None \<Rightarrow>
          collectFiles ev filePaths allDocuments
            (log_event (LoggedError filePath) (log_event (ContentRead filePath) s))
      | Some content \<Rightarrow>
          (case createDocuments ev filePath content of
             None \<Rightarrow> (Some (ChunkingFailed filePath), allDocuments, log_event (ContentRead filePath) s)
           | Some documents \<Rightarrow>
               collectFiles ev filePaths (allDocuments @ documents)
                 (log_event (ContentRead filePath) s)))"

fun collectKnowledgeBases ::
  "env \<Rightarrow> string list \<Rightarrow> document list \<Rightarrow> state \<Rightarrow> error option \<times> document list \<times> state" where
  "collectKnowledgeBases ev [] allDocuments s = (None, allDocuments, s)"
| "collectKnowledgeBases ev (knowledgeBaseName # rest) allDocuments s =
     (if startsWith_dot knowledgeBaseName then collectKnowledgeBases ev rest allDocuments s
      else
        (case collectFiles ev
                (getFilesRecursively (fs_tree s) (knowledgeBasePath ev knowledgeBaseName))
                allDocuments s of
           (Some e, docs, s') \<Rightarrow> (Some e, docs, s')
         | (None, docs, s') \<Rightarrow> collectKnowledgeBases ev rest docs s'))"

definition rebuildIndex :: "env \<Rightarrow> string list \<Rightarrow> state \<Rightarrow> error option \<times> state" where
  "rebuildIndex ev knowledgeBases s =
     (case collectKnowledgeBases ev knowledgeBases [] s of
        (Some e, allDocuments, s') \<Rightarrow> (Some e, s')
      | (None, allDocuments, s') \<Rightarrow>
          (if allDocuments = [] then (None, s')
           else if rebuild_embed_fails ev then (Some EmbeddingFailed, embed_call allDocuments s')
           else
             (case rebuild_save_index ev of
                Some e \<Rightarrow>
                  (Some (handleFsOperationError ''save FAISS index at'' e),
                   save_call ((embed_call allDocuments s')\<lparr>faissIndex := Some allDocuments\<rparr>))
              | None \<Rightarrow>
                  (None,
                   store_saved
                     (save_call ((embed_call allDocuments s')\<lparr>faissIndex := Some allDocuments\<rparr>))))))"

text \<open>
  \<^verbatim>\<open>if (specificKnowledgeBase)\<close> is false for an absent and for an empty name: then the
  names are those of \<^verbatim>\<open>fsp.readdir(KNOWLEDGE_BASES_ROOT_DIR)\<close>, which may throw.
\<close>

definition knowledgeBases_of :: "env \<Rightarrow> string option \<Rightarrow> state \<Rightarrow> string list option" where
  "knowledgeBases_of ev specificKnowledgeBase s =
     (case specificKnowledgeBase of
        Some name \<Rightarrow>
          if name \<noteq> [] then Some [name]
          else map_option (map dirent_name) (readdir (fs_tree s) (root_dir ev))
      | None \<Rightarrow> map_option (map dirent_name) (readdir (fs_tree s) (root_dir ev)))"

definition updateIndex :: "env \<Rightarrow> string option \<Rightarrow> state \<Rightarrow> error option \<times> state" where
  "updateIndex ev specificKnowledgeBase s =
     (case knowledgeBases_of ev specificKnowledgeBase s of
        None \<Rightarrow> (Some ReaddirFailed, s)
      | Some knowledgeBases \<Rightarrow>
          (case processKnowledgeBases ev knowledgeBases False s of
             (Some e, anyFileProcessed, s') \<Rightarrow> (Some e, s')
           | (None, anyFileProcessed, s') \<Rightarrow>
               (if faissIndex s' = None \<and> anyFileProcessed then rebuildIndex ev knowledgeBases s'
                else (None, s'))))"

section \<open>UrlManager\<close>

subsection \<open>sanitizeUrlForFilename\<close>

text \<open>
  \<^verbatim>\<open>.replace(/https?:\/\//g, '')\<close>: left to right, every occurrence of
  \<^verbatim>\<open>http://\<close> or \<^verbatim>\<open>https://\<close> is dropped.
\<close>

fun strip_protocols :: "string \<Rightarrow> string" where
  "strip_protocols [] = []"
| "strip_protocols (c # cs) =
     (if take 7 (c # cs) = ''http://'' then strip_protocols (drop 6 cs)
      else if take 8 (c # cs) = ''https://'' then strip_protocols (drop 7 cs)
      else c # strip_protocols cs)"

text \<open>\<^verbatim>\<open>.replace(/[/:?#]/g, '_')\<close>\<close>

definition replace_reserved :: "string \<Rightarrow> string" where
  "replace_reserved =
     map (\<lambda>c. if c = CHR ''/'' \<or> c = CHR '':'' \<or> c = CHR ''?'' \<or> c = CHR ''#'' then CHR ''_'' else c)"

text \<open>\<^verbatim>\<open>.replace(/_{2,}/g, '_')\<close>: a run of underscores becomes one underscore.\<close>

fun collapse_underscores :: "string \<Rightarrow> string" where
  "collapse_underscores [] = []"
| "collapse_underscores [c] = [c]"
| "collapse_underscores (a # b # cs) =
     (if a = CHR ''_'' \<and> b = CHR ''_'' then collapse_underscores (b # cs)
      else a # collapse_underscores (b # cs))"

text \<open>\<^verbatim>\<open>.replace(/^_|_$/g, '')\<close>: one underscore off the front, then one off the end.\<close>

definition trim_leading :: "string \<Rightarrow> string" where
  "trim_leading x = (case x of [] \<Rightarrow> [] | c # cs \<Rightarrow> if c = CHR ''_'' then cs else c # cs)"

definition trim_trailing :: "string \<Rightarrow> string" where
  "trim_trailing x = (if x \<noteq> [] \<and> last x = CHR ''_'' then butlast x else x)"

definition sanitizeUrlForFilename :: "string \<Rightarrow> string" where
  "sanitizeUrlForFilename u =
     take 200 (trim_trailing (trim_leading (collapse_underscores (replace_reserved (strip_protocols u)))))"

subsection \<open>The pending list and the fetch\<close>

text \<open>
  The collaborators of the UrlManager: the HTTP fetch, the \<^verbatim>\<open><title>\<close> match (its
  trimmed capture), the HTML to markdown converter, the faults of its file operations,
  and what \<^verbatim>\<open>crypto.randomUUID()\<close>, \<^verbatim>\<open>new Date().toISOString()\<close> and
  \<^verbatim>\<open>JSON.stringify\<close> return. \<open>digest_of\<close> is the SHA-256 digest of a text and
  \<open>web_root_dir\<close> is \<^verbatim>\<open>KNOWLEDGE_BASES_ROOT_DIR\<close>.
\<close>

record web =
  web_root_dir :: path
  http_get :: "string \<Rightarrow> string option"
  title_match :: "string \<Rightarrow> string option"
  turndown :: "string \<Rightarrow> string option"
  mkdir_kb_dir :: "string \<Rightarrow> errno option"
  write_markdown :: "path \<Rightarrow> errno option"
  mkdir_pending_dir :: "errno option"
  write_pending :: "errno option"
  randomUUID :: string
  now :: string
  JSON_stringify :: "string \<Rightarrow> string"
  digest_of :: "string \<Rightarrow> string"

definition loadPendingUrls :: "state \<Rightarrow> pending_url list" where
  "loadPendingUrls s = (case pending_urls_file s of Listing urls \<Rightarrow> urls | _ \<Rightarrow> [])"

definition savePendingUrls :: "web \<Rightarrow> pending_url list \<Rightarrow> state \<Rightarrow> error option \<times> state" where
  "savePendingUrls w urls s =
     (case mkdir_pending_dir w of
        Some e \<Rightarrow> (Some (FsError e), s)
      | None \<Rightarrow>
          (case write_pending w of
             Some e \<Rightarrow> (Some (FsError e), s)
           | None \<Rightarrow> (None, log_event PendingSaved (s\<lparr>pending_urls_file := Listing urls\<rparr>))))"

definition fetchAndConvert :: "web \<Rightarrow> string \<Rightarrow> error + (string \<times> string)" where
  "fetchAndConvert w u =
     (case http_get w u of
        None \<Rightarrow> Inl (FetchFailed u)
      | Some html \<Rightarrow>
          (case turndown w html of
             None \<Rightarrow> Inl (ConvertFailed u)
           | Some markdown \<Rightarrow>
               Inr (markdown, (case title_match w html of Some t \<Rightarrow> t | None \<Rightarrow> u))))"

subsection \<open>saveMarkdown\<close>

text \<open>\<^verbatim>\<open>fs.existsSync(p)\<close>\<close>

definition existsSync :: "dirent list option \<Rightarrow> path \<Rightarrow> bool" where
  "existsSync tree p =
     (case tree of None \<Rightarrow> False | Some es \<Rightarrow> p = [] \<or> fs_lookup es p \<noteq> None)"

text \<open>The listing with the first entry of that name replaced.\<close>

fun replace_entry :: "dirent \<Rightarrow> dirent list \<Rightarrow> dirent list" where
  "replace_entry e [] = []"
| "replace_entry e (x # xs) =
     (if dirent_name x = dirent_name e then e # xs else x # replace_entry e xs)"

text \<open>
  \<^verbatim>\<open>fsp.mkdir(dir, { recursive: true })\<close>: every missing directory along the path is
  created; it is refused (\<open>None\<close>) where a component is not a listed directory.
\<close>

fun mkdir_p :: "path \<Rightarrow> dirent list \<Rightarrow> dirent list option" where
  "mkdir_p [] es = Some es"
| "mkdir_p (n # ns) es =
     (case find_entry n es of
        None \<Rightarrow> map_option (\<lambda>sub. es @ [DirEnt n sub]) (mkdir_p ns [])
      | Some (DirEnt _ sub) \<Rightarrow> map_option (\<lambda>sub'. replace_entry (DirEnt n sub') es) (mkdir_p ns sub)
      | Some _ \<Rightarrow> None)"

definition mkdir_recursive :: "dirent list option \<Rightarrow> path \<Rightarrow> dirent list option" where
  "mkdir_recursive tree p = (case tree of None \<Rightarrow> None | Some es \<Rightarrow> mkdir_p p es)"

text \<open>
  Writing a file into a listing replaces the file of that name or adds one; the write is
  refused (\<open>None\<close>) where the name is taken by something that is not a file, or the
  directory is not a listed directory.
\<close>

fun put_entry :: "dirent \<Rightarrow> dirent list \<Rightarrow> dirent list option" where
  "put_entry e [] = Some [e]"
| "put_entry e (x # xs) =
     (if dirent_name x = dirent_name e then
        (case x of FileEnt _ _ _ \<Rightarrow> Some (e # xs) | _ \<Rightarrow> None)
      else map_option ((#) x) (put_entry e xs))"

fun write_at :: "path \<Rightarrow> dirent \<Rightarrow> dirent list \<Rightarrow> dirent list option" where
  "write_at [] e es = put_entry e es"
| "write_at (n # ns) e es =
     (case find_entry n es of
        Some (DirEnt _ sub) \<Rightarrow> map_option (\<lambda>sub'. replace_entry (DirEnt n sub') es) (write_at ns e sub)
      | _ \<Rightarrow> None)"

text \<open>
  Writing the file at a path: into the directory \<^verbatim>\<open>path.dirname\<close> of the path, under
  the name \<^verbatim>\<open>path.basename\<close>.
\<close>

definition writeFile_tree ::
  "dirent list option \<Rightarrow> path \<Rightarrow> string option \<Rightarrow> string option \<Rightarrow> dirent list option" where
  "writeFile_tree tree p d c =
     (case tree of
        None \<Rightarrow> None
      | Some es \<Rightarrow> if p = [] then None else write_at (butlast p) (FileEnt (last p) d c) es)"

definition frontmatter :: "web \<Rightarrow> string \<Rightarrow> string \<Rightarrow> string" where
  "frontmatter w u title =
     ''---'' @ [CHR 0x0A] @ ''url: '' @ u @ [CHR 0x0A] @ ''title: '' @ JSON_stringify w title @ [CHR 0x0A]
       @ ''fetched_at: '' @ now w @ [CHR 0x0A] @ ''---'' @ [CHR 0x0A, CHR 0x0A]"

definition markdown_filename :: "string \<Rightarrow> string" where
  "markdown_filename u = sanitizeUrlForFilename u @ ''.md''"

text \<open>\<^verbatim>\<open>if (!fs.existsSync(dir)) { await fsp.mkdir(dir, { recursive: true }); }\<close>\<close>

definition ensure_kb_dir :: "web \<Rightarrow> string \<Rightarrow> state \<Rightarrow> error option \<times> state" where
  "ensure_kb_dir w knowledgeBase s =
     (if existsSync (fs_tree s) (path_join (web_root_dir w) knowledgeBase) then (None, s)
      else
        (case mkdir_kb_dir w knowledgeBase of
           Some e \<Rightarrow> (Some (FsError e), s)
         | None \<Rightarrow>
             (case mkdir_recursive (fs_tree s) (path_join (web_root_dir w) knowledgeBase) of
                None \<Rightarrow> (Some (FsError ENOTDIR), s)
              | Some tree' \<Rightarrow> (None, s\<lparr>fs_tree := Some tree'\<rparr>))))"

text \<open>
  \<^verbatim>\<open>await fsp.writeFile(filePath, frontmatter + markdown, 'utf-8')\<close>, with
  \<^verbatim>\<open>filePath = path.join(dir, filename)\<close>. A write that the tree refuses throws; its
  error code is not told apart further.
\<close>

definition write_markdown_file ::
  "web \<Rightarrow> path \<Rightarrow> string \<Rightarrow> string \<Rightarrow> state \<Rightarrow> (error + path) \<times> state" where
  "write_markdown_file w dir filename content s =
     (case write_markdown w (path_join dir filename) of
        Some e \<Rightarrow> (Inl (FsError e), s)
      | None \<Rightarrow>
          (case writeFile_tree (fs_tree s) (path_join dir filename)
                  (Some (digest_of w content)) (Some content) of
             None \<Rightarrow> (Inl (FsError ENOTDIR), s)
           | Some tree' \<Rightarrow>
               (Inr (path_join dir filename),
                log_event (MarkdownWritten (path_join dir filename)) (s\<lparr>fs_tree := Some tree'\<rparr>))))"

definition saveMarkdown ::
  "web \<Rightarrow> string \<Rightarrow> string \<Rightarrow> string \<Rightarrow> string \<Rightarrow> state \<Rightarrow> (error + path) \<times> state" where
  "saveMarkdown w knowledgeBase u title markdown s =
     (case ensure_kb_dir w knowledgeBase s of
        (Some e, s1) \<Rightarrow> (Inl e, s1)
      | (None, s1) \<Rightarrow>
          write_markdown_file w (path_join (web_root_dir w) knowledgeBase) (markdown_filename u)
            (frontmatter w u title @ markdown) s1)"

subsection \<open>The operations\<close>

definition suggestUrl ::
  "web \<Rightarrow> string \<Rightarrow> string \<Rightarrow> string \<Rightarrow> state \<Rightarrow> (error + pending_url) \<times> state" where
  "suggestUrl w u knowledgeBase why s =
     (case savePendingUrls w
             (loadPendingUrls s @
                [\<lparr>url_id = randomUUID w, url = u, knowledge_base = knowledgeBase, reason = why,
                  suggested_at = now w, status = Pending\<rparr>]) s of
        (Some e, s') \<Rightarrow> (Inl e, s')
      | (None, s') \<Rightarrow>
          (Inr \<lparr>url_id = randomUUID w, url = u, knowledge_base = knowledgeBase, reason = why,
                suggested_at = now w, status = Pending\<rparr>, s'))"

definition listPendingUrls :: "state \<Rightarrow> pending_url list" where
  "listPendingUrls s = filter (\<lambda>u. status u = Pending) (loadPendingUrls s)"

text \<open>\<^verbatim>\<open>entry.status = 'approved'\<close> on the record that \<^verbatim>\<open>urls.find\<close> returned.\<close>

fun mark_approved :: "string \<Rightarrow> pending_url list \<Rightarrow> pending_url list" where
  "mark_approved i [] = []"
| "mark_approved i (u # us) =
     (if url_id u = i then u\<lparr>status := Approved\<rparr> # us else u # mark_approved i us)"

definition approveUrl ::
  "(string \<Rightarrow> state \<Rightarrow> error option \<times> state) \<Rightarrow> web \<Rightarrow> string \<Rightarrow> state
     \<Rightarrow> (error + path \<times> string) \<times> state" where
  "approveUrl reindex w i s =
     (case find (\<lambda>u. url_id u = i) (loadPendingUrls s) of
        None \<Rightarrow> (Inl (NoPendingUrl i), s)
      | Some entry \<Rightarrow>
          (if status entry \<noteq> Pending then (Inl (WrongStatus i (status entry)), s)
           else
             (case fetchAndConvert w (url entry) of
                Inl e \<Rightarrow> (Inl e, s)
              | Inr (markdown, title) \<Rightarrow>
                  (case saveMarkdown w (knowledge_base entry) (url entry) title markdown s of
                     (Inl e, s1) \<Rightarrow> (Inl e, s1)
                   | (Inr filePath, s1) \<Rightarrow>
                       (case savePendingUrls w (mark_approved i (loadPendingUrls s)) s1 of
                          (Some e, s2) \<Rightarrow> (Inl e, s2)
                        | (None, s2) \<Rightarrow>
                            (case reindex (knowledge_base entry) s2 of
                               (Some e, s3) \<Rightarrow> (Inl e, s3)
                             | (None, s3) \<Rightarrow> (Inr (filePath, knowledge_base entry), s3)))))))"

text \<open>\<^verbatim>\<open>urls.findIndex\<close>, with \<open>None\<close> for -1, and \<^verbatim>\<open>urls.splice(idx, 1)\<close>.\<close>

fun findIndex :: "('a \<Rightarrow> bool) \<Rightarrow> 'a list \<Rightarrow> nat option" where
  "findIndex P [] = None"
| "findIndex P (x # xs) = (if P x then Some 0 else map_option Suc (findIndex P xs))"

definition splice1 :: "nat \<Rightarrow> 'a list \<Rightarrow> 'a list" where
  "splice1 idx xs = take idx xs @ drop (Suc idx) xs"

definition rejectUrl :: "web \<Rightarrow> string \<Rightarrow> state \<Rightarrow> error option \<times> state" where
  "rejectUrl w i s =
     (case findIndex (\<lambda>u. url_id u = i) (loadPendingUrls s) of
        None \<Rightarrow> (Some (NoPendingUrl i), s)
      | Some idx \<Rightarrow> savePendingUrls w (splice1 idx (loadPendingUrls s)) s)"

definition addUrl ::
  "(string \<Rightarrow> state \<Rightarrow> error option \<times> state) \<Rightarrow> web \<Rightarrow> string \<Rightarrow> string \<Rightarrow> state
     \<Rightarrow> (error + path) \<times> state" where
  "addUrl reindex w u knowledgeBase s =
     (case fetchAndConvert w u of
        Inl e \<Rightarrow> (Inl e, s)
      | Inr (markdown, title) \<Rightarrow>
          (case saveMarkdown w knowledgeBase u title markdown s of
             (Inl e, s1) \<Rightarrow> (Inl e, s1)
           | (Inr filePath, s1) \<Rightarrow>
               (case reindex knowledgeBase s1 of
                  (Some e, s2) \<Rightarrow> (Inl e, s2)
                | (None, s2) \<Rightarrow> (Inr filePath, s2))))"

text \<open>
  The server builds the UrlManager with
  \<^verbatim>\<open>new UrlManager((kb) => this.faissManager.updateIndex(kb))\<close>.
\<close>

definition server_reindex :: "env \<Rightarrow> string \<Rightarrow> state \<Rightarrow> error option \<times> state" where
  "server_reindex ev kb s = updateIndex ev (Some kb) s"

section \<open>Example data\<close>

text \<open>
  An environment in which nothing fails and the splitter returns the text as one chunk;
  the knowledge bases are under \<^verbatim>\<open>/kbs\<close>.
\<close>

definition plain_query :: "document list \<Rightarrow> string \<Rightarrow> nat \<Rightarrow> score_filter \<Rightarrow> (document \<times> real) list" where
  "plain_query st q k f = []"

definition whole_text :: "string \<Rightarrow> string list option" where
  "whole_text c = (if c = [] then Some [] else Some [c])"

definition no_fault :: "path \<Rightarrow> errno option" where
  "no_fault p = None"

definition never :: "path \<Rightarrow> bool" where
  "never p = False"

definition quiet_env :: env where
  "quiet_env =
     \<lparr>root_dir = [''kbs''], mkdir_faiss_dir = None, read_model_name_fails = False,
      unlink_errno = EISDIR,
      load_index = None, write_model_name = None, mkdir_index_dir = no_fault,
      splitter = whole_text, embed_fails = never, save_index = no_fault, write_hash = no_fault,
      rebuild_embed_fails = False, rebuild_save_index = None,
      similaritySearchWithScore = plain_query\<rparr>"

definition empty_state :: state where
  "empty_state =
     \<lparr>faissIndex = None, fs_tree = Some [DirEnt ''kbs'' []], faiss_dir = False, index_file = None,
      model_name_file = None, hash_files = Map.empty, pending_urls_file = Missing, trace = []\<rparr>"

definition doc_a :: document where
  "doc_a = \<lparr>pageContent = ''alpha'', source = [''kbs'', ''kb1'', ''a.txt'']\<rparr>"

text \<open>
  A store query as \<^verbatim>\<open>FaissStore.similaritySearchWithScore\<close> answers it: the \<open>k\<close>
  nearest documents, the filter argument not consulted. Every document is at distance 5
  from every query here.
\<close>

definition far_query :: "document list \<Rightarrow> string \<Rightarrow> nat \<Rightarrow> score_filter \<Rightarrow> (document \<times> real) list" where
  "far_query st q k f = take k (map (\<lambda>d. (d, 5)) st)"

definition ollama_vars :: process_env where
  "ollama_vars =
     \<lparr>env_EMBEDDING_PROVIDER = Some ''ollama'', env_HUGGINGFACE_MODEL_NAME = None,
      env_OLLAMA_BASE_URL = None, env_OLLAMA_MODEL = Some ''nomic-embed-text'',
      env_OPENAI_MODEL_NAME = None, env_OPENAI_API_KEY = None, env_HUGGINGFACE_API_KEY = None\<rparr>"

definition openai_vars :: process_env where
  "openai_vars =
     \<lparr>env_EMBEDDING_PROVIDER = Some ''openai'', env_HUGGINGFACE_MODEL_NAME = None,
      env_OLLAMA_BASE_URL = None, env_OLLAMA_MODEL = None,
      env_OPENAI_MODEL_NAME = Some ''nomic-embed-text'', env_OPENAI_API_KEY = Some ''sk-test'',
      env_HUGGINGFACE_API_KEY = None\<rparr>"

definition ollama_manager :: manager where
  "ollama_manager =
     \<lparr>embeddingProvider = ''ollama'', modelName = ''nomic-embed-text'',
      embedder = OllamaEmbeddings ''http://localhost:11434'' ''nomic-embed-text''\<rparr>"

definition openai_manager :: manager where
  "openai_manager =
     \<lparr>embeddingProvider = ''openai'', modelName = ''nomic-embed-text'',
      embedder = OpenAIEmbeddings ''sk-test'' ''nomic-embed-text''\<rparr>"

definition minilm_manager :: manager where
  "minilm_manager =
     \<lparr>embeddingProvider = ''ollama'', modelName = ''all-minilm'',
      embedder = OllamaEmbeddings ''http://localhost:11434'' ''all-minilm''\<rparr>"

section \<open>Auxiliary notions\<close>

text \<open>The files that \<open>updateIndex\<close> never writes are the same in two states.\<close>

definition same_files :: "state \<Rightarrow> state \<Rightarrow> bool" where
  "same_files s s' \<longleftrightarrow>
     fs_tree s' = fs_tree s \<and> pending_urls_file s' = pending_urls_file s \<and>
     model_name_file s' = model_name_file s \<and> faiss_dir s' = faiss_dir s"

text \<open>A web in which every fetch and every write succeeds, and a pending list of two records.\<close>

definition same_text :: "string \<Rightarrow> string option" where
  "same_text h = Some h"

definition no_text :: "string \<Rightarrow> string option" where
  "no_text h = None"

definition quoted :: "string \<Rightarrow> string" where
  "quoted t = [CHR 0x22] @ t @ [CHR 0x22]"

definition short_digest :: "string \<Rightarrow> string" where
  "short_digest t = take 4 t"

definition no_mkdir_fault :: "string \<Rightarrow> errno option" where
  "no_mkdir_fault kb = None"

definition quiet_web :: web where
  "quiet_web =
     \<lparr>web_root_dir = [''kbs''], http_get = same_text, title_match = no_text, turndown = same_text,
      mkdir_kb_dir = no_mkdir_fault, write_markdown = no_fault, mkdir_pending_dir = None,
      write_pending = None, randomUUID = ''u3'', now = ''2024-01-01T00:00:00.000Z'',
      JSON_stringify = quoted, digest_of = short_digest\<rparr>"

definition rec1 :: pending_url where
  "rec1 = \<lparr>url_id = ''u1'', url = ''https://x/doc'', knowledge_base = ''kb1'', reason = ''useful'',
           suggested_at = ''2023-12-31T00:00:00.000Z'', status = Pending\<rparr>"

definition rec2 :: pending_url where
  "rec2 = \<lparr>url_id = ''u2'', url = ''https://x/old'', knowledge_base = ''kb1'', reason = ''done'',
           suggested_at = ''2023-12-30T00:00:00.000Z'', status = Approved\<rparr>"

definition pending_state :: state where
  "pending_state = empty_state\<lparr>pending_urls_file := Listing [rec1, rec2]\<rparr>"

text \<open>
  A path that the scan can return: its last component is not hidden. The documents of the
  in-memory store. The events that are only reads and log lines, and two states that
  differ by such events only.
\<close>

definition visible :: "path \<Rightarrow> bool" where
  "visible p \<longleftrightarrow> p \<noteq> [] \<and> \<not> startsWith_dot (last p)"

definition store_docs :: "state \<Rightarrow> document list" where
  "store_docs s = (case faissIndex s of None \<Rightarrow> [] | Some st \<Rightarrow> st)"

fun quiet_event :: "event \<Rightarrow> bool" where
  "quiet_event (ContentRead p) = True"
| "quiet_event (LoggedError p) = True"
| "quiet_event e = False"

definition only_reads :: "state \<Rightarrow> state \<Rightarrow> bool" where
  "only_reads s s' \<longleftrightarrow> (\<exists>evs. s' = s\<lparr>trace := trace s @ evs\<rparr> \<and> list_all quiet_event evs)"

text \<open>Example trees; the knowledge-bases root is \<^verbatim>\<open>/kbs\<close>.\<close>

definition two_kb_tree :: "dirent list" where
  "two_kb_tree =
     [DirEnt ''kbs''
        [DirEnt ''kb1'' [FileEnt ''a.md'' (Some ''h-a'') (Some ''# Hello''),
                         DirEnt ''sub'' [FileEnt ''b.txt'' (Some ''h-b'') (Some ''World'')],
                         FileEnt ''.md'' (Some ''h-x'') (Some ''hidden'')],
         DirEnt ''.faiss'' [],
         FileEnt ''notes.txt'' (Some ''h-n'') (Some ''top'')]]"

definition kb_state :: state where
  "kb_state = empty_state\<lparr>fs_tree := Some two_kb_tree\<rparr>"

text \<open>
  A knowledge base of two files. In \<open>unreadable_tree\<close> the first file cannot be read at
  all (neither hashed nor read as text); in \<open>vanishing_tree\<close> it can be hashed but its
  text can no longer be read.
\<close>

definition unreadable_tree :: "dirent list" where
  "unreadable_tree =
     [DirEnt ''kbs''
        [DirEnt ''kb1'' [FileEnt ''bad.txt'' None None,
                         FileEnt ''good.txt'' (Some ''h-2'') (Some ''World'')]]]"

definition vanishing_tree :: "dirent list" where
  "vanishing_tree =
     [DirEnt ''kbs''
        [DirEnt ''kb1'' [FileEnt ''bad.txt'' (Some ''h-1'') None,
                         FileEnt ''good.txt'' (Some ''h-2'') (Some ''World'')]]]"





text \<open>Saving the store is denied while the given file is processed.\<close>

definition save_denied_for :: "path \<Rightarrow> path \<Rightarrow> errno option" where
  "save_denied_for p q = (if q = p then Some EACCES else None)"

section \<open>What updateIndex leaves alone\<close>

lemma same_files_refl [simp]: "same_files s s"
  by (simp add: same_files_def)

lemma same_files_trans: "same_files s t \<Longrightarrow> same_files t u \<Longrightarrow> same_files s u"
  by (simp add: same_files_def)

lemma same_files_log_event [simp]: "same_files s (log_event e t) = same_files s t"
  by (simp add: same_files_def log_event_def)

lemma same_files_log_event_left [simp]: "same_files (log_event e s) t = same_files s t"
  by (simp add: same_files_def log_event_def)

lemma indexDocuments_same_files:
  "indexDocuments ev kb f h docs s = (r, s') \<Longrightarrow> same_files s s'"
  by (auto simp: indexDocuments_def same_files_def hash_written_def store_saved_def save_call_def
      add_to_store_def embed_call_def log_event_def split: if_splits option.splits)

lemma processFile_same_files:
  "processFile ev kb f s = (r, s') \<Longrightarrow> same_files s s'"
  by (auto simp: processFile_def split: if_splits option.splits
      dest!: indexDocuments_same_files)

lemma processFiles_same_files:
  "processFiles ev kb fs s = (r, s') \<Longrightarrow> same_files s s'"
proof (induction fs arbitrary: s)
  case Nil
  then show ?case by simp
next
  case (Cons f fs)
  obtain r1 s1 where p: "processFile ev kb f s = (r1, s1)" by (cases "processFile ev kb f s")
  then have "same_files s s1" by (rule processFile_same_files)
  with Cons p show ?case
    by (cases r1) (auto intro: same_files_trans)
qed

lemma processKnowledgeBases_same_files:
  "processKnowledgeBases ev kbs a s = (r, a', s') \<Longrightarrow> same_files s s'"
proof (induction kbs arbitrary: a s)
  case Nil
  then show ?case by simp
next
  case (Cons k kbs)
  show ?case
  proof (cases "startsWith_dot k")
    case True
    with Cons show ?thesis by simp
  next
    case False
    obtain r1 s1 where p: "processFiles ev (knowledgeBasePath ev k) (getFilesRecursively (fs_tree s) (knowledgeBasePath ev k)) s = (r1, s1)"
      by (cases "processFiles ev (knowledgeBasePath ev k) (getFilesRecursively (fs_tree s) (knowledgeBasePath ev k)) s")
    then have "same_files s s1" by (rule processFiles_same_files)
    with Cons p False show ?thesis
      by (cases r1) (auto intro: same_files_trans)
  qed
qed

lemma collectFiles_same_files:
  "collectFiles ev fs acc s = (r, docs, s') \<Longrightarrow> same_files s s'"
proof (induction fs arbitrary: acc s)
  case Nil
  then show ?case by simp
next
  case (Cons f fs)
  show ?case
  proof (cases "readFile s f")
    case None
    with Cons.prems have "collectFiles ev fs acc (log_event (LoggedError f) (log_event (ContentRead f) s)) = (r, docs, s')"
      by simp
    from Cons.IH [OF this] show ?thesis by (simp add: same_files_def log_event_def)
  next
    case (Some c)
    show ?thesis
    proof (cases "createDocuments ev f c")
      case None
      with Some Cons.prems show ?thesis by (auto simp: same_files_def log_event_def)
    next
      case (Some ds)
      with \<open>readFile s f = Some c\<close> Cons.prems
      have "collectFiles ev fs (acc @ ds) (log_event (ContentRead f) s) = (r, docs, s')" by simp
      from Cons.IH [OF this] show ?thesis by (simp add: same_files_def log_event_def)
    qed
  qed
qed

lemma collectKnowledgeBases_same_files:
  "collectKnowledgeBases ev kbs acc s = (r, docs, s') \<Longrightarrow> same_files s s'"
proof (induction kbs arbitrary: acc s)
  case Nil
  then show ?case by simp
next
  case (Cons k kbs)
  show ?case
  proof (cases "startsWith_dot k")
    case True
    with Cons show ?thesis by simp
  next
    case False
    obtain r1 d1 s1 where p: "collectFiles ev (getFilesRecursively (fs_tree s) (knowledgeBasePath ev k)) acc s = (r1, d1, s1)"
      by (cases "collectFiles ev (getFilesRecursively (fs_tree s) (knowledgeBasePath ev k)) acc s")
    then have "same_files s s1" by (rule collectFiles_same_files)
    with Cons p False show ?thesis
      by (cases r1) (auto intro: same_files_trans)
  qed
qed

lemma rebuildIndex_same_files:
  "rebuildIndex ev kbs s = (r, s') \<Longrightarrow> same_files s s'"
proof -
  assume a: "rebuildIndex ev kbs s = (r, s')"
  obtain r1 d1 s1 where p: "collectKnowledgeBases ev kbs [] s = (r1, d1, s1)"
    by (cases "collectKnowledgeBases ev kbs [] s")
  then have "same_files s s1" by (rule collectKnowledgeBases_same_files)
  with a p show ?thesis
    by (cases r1) (auto simp: rebuildIndex_def same_files_def store_saved_def save_call_def
        embed_call_def log_event_def split: if_splits option.splits)
qed

lemma updateIndex_same_files:
  "updateIndex ev kbo s = (r, s') \<Longrightarrow> same_files s s'"
proof -
  assume a: "updateIndex ev kbo s = (r, s')"
  show ?thesis
  proof (cases "knowledgeBases_of ev kbo s")
    case None
    with a show ?thesis by (simp add: updateIndex_def)
  next
    case (Some kbs)
    obtain r1 a1 s1 where p: "processKnowledgeBases ev kbs False s = (r1, a1, s1)"
      by (cases "processKnowledgeBases ev kbs False s")
    then have s1: "same_files s s1" by (rule processKnowledgeBases_same_files)
    show ?thesis
    proof (cases r1)
      case None
      with a Some p s1 show ?thesis
        by (auto simp: updateIndex_def split: if_splits
            dest!: rebuildIndex_same_files intro: same_files_trans)
    next
      case (Some e)
      with a \<open>knowledgeBases_of ev kbo s = Some kbs\<close> p s1 show ?thesis
        by (simp add: updateIndex_def)
    qed
  qed
qed

section \<open>Evaluation and list helpers\<close>

lemmas index_defs =
  updateIndex_def knowledgeBases_of_def rebuildIndex_def processFile_def indexDocuments_def
  createDocuments_def calculateSHA256_def readFile_def getFilesRecursively_def readdir_def
  indexFilePath_def indexDirPath_def relativePath_def extname_def toLowerCase_def lower_char_def
  log_event_def embed_call_def add_to_store_def save_call_def store_saved_def hash_written_def
  handleFsOperationError_def isPermissionError_def server_reindex_def knowledgeBasePath_def
  path_join_def

lemmas url_defs =
  approveUrl_def rejectUrl_def suggestUrl_def listPendingUrls_def addUrl_def loadPendingUrls_def
  savePendingUrls_def fetchAndConvert_def saveMarkdown_def ensure_kb_dir_def
  write_markdown_file_def markdown_filename_def
  sanitizeUrlForFilename_def replace_reserved_def trim_leading_def trim_trailing_def
  existsSync_def mkdir_recursive_def writeFile_tree_def frontmatter_def splice1_def

lemmas data_defs =
  quiet_env_def empty_state_def quiet_web_def pending_state_def rec1_def rec2_def same_text_def
  no_text_def quoted_def short_digest_def no_mkdir_fault_def no_fault_def never_def whole_text_def
  plain_query_def kb_state_def two_kb_tree_def unreadable_tree_def vanishing_tree_def
  save_denied_for_def

lemma findIndex_None_iff: "findIndex P xs = None \<longleftrightarrow> (\<forall>x \<in> set xs. \<not> P x)"
  by (induction xs) auto

lemma findIndex_Some_splice:
  "findIndex (\<lambda>u. f u = i) xs = Some idx \<Longrightarrow> distinct (map f xs) \<Longrightarrow>
     splice1 idx xs = filter (\<lambda>u. f u \<noteq> i) xs"
proof (induction xs arbitrary: idx)
  case Nil
  then show ?case by simp
next
  case (Cons x xs)
  show ?case
  proof (cases "f x = i")
    case True
    with Cons.prems have "idx = 0" by simp
    moreover from True Cons.prems have "\<forall>u \<in> set xs. f u \<noteq> i" by (auto simp: image_iff)
    ultimately show ?thesis using True by (simp add: splice1_def)
  next
    case False
    with Cons.prems obtain j where j: "findIndex (\<lambda>u. f u = i) xs = Some j" "idx = Suc j"
      by auto
    with Cons have "splice1 j xs = filter (\<lambda>u. f u \<noteq> i) xs" by simp
    with j False show ?thesis by (simp add: splice1_def)
  qed
qed

lemma ensure_kb_dir_frame:
  "ensure_kb_dir w kb s = (r, s1) \<Longrightarrow>
     pending_urls_file s1 = pending_urls_file s \<and> faissIndex s1 = faissIndex s"
  by (auto simp: ensure_kb_dir_def split: option.splits if_splits)

lemma write_markdown_file_frame:
  "write_markdown_file w dir n c s = (r, s1) \<Longrightarrow>
     pending_urls_file s1 = pending_urls_file s \<and> faissIndex s1 = faissIndex s"
  by (auto simp: write_markdown_file_def log_event_def split: option.splits)

lemma saveMarkdown_frame:
  assumes "saveMarkdown w kb u title md s = (r, s1)"
  shows "pending_urls_file s1 = pending_urls_file s \<and> faissIndex s1 = faissIndex s"
proof -
  obtain r0 s0 where e: "ensure_kb_dir w kb s = (r0, s0)" by (cases "ensure_kb_dir w kb s")
  from ensure_kb_dir_frame [OF e] assms e show ?thesis
    by (cases r0) (auto simp: saveMarkdown_def dest: write_markdown_file_frame)
qed

lemma saveMarkdown_pending:
  "saveMarkdown w kb u title md s = (r, s1) \<Longrightarrow> pending_urls_file s1 = pending_urls_file s"
  by (simp add: saveMarkdown_frame)

lemma server_reindex_pending:
  "server_reindex ev kb s = (r, s') \<Longrightarrow> pending_urls_file s' = pending_urls_file s"
  by (auto simp: server_reindex_def same_files_def dest: updateIndex_same_files)

lemma find_None_ids: "find (\<lambda>u. url_id u = i) us = None \<longleftrightarrow> i \<notin> url_id ` set us"
  by (auto simp: find_None_iff)

section \<open>What the scan returns and what enters the store\<close>

lemma traverse_below:
  "p \<in> set (traverse cur es) \<Longrightarrow> \<exists>q. p = cur @ q \<and> q \<noteq> [] \<and> (\<forall>n \<in> set q. \<not> startsWith_dot n)"
proof (induction cur es rule: traverse.induct)
  case (1 currentPath)
  then show ?case by simp
next
  case (2 currentPath n d c es)
  then show ?case by (auto split: if_splits)
next
  case (3 currentPath n sub es)
  show ?case
  proof (cases "p \<in> set (traverse currentPath es)")
    case True
    with 3 show ?thesis by simp
  next
    case False
    with "3.prems" have nd: "\<not> startsWith_dot n" and "p \<in> set (traverse (currentPath @ [n]) sub)"
      by (auto split: if_splits)
    with "3.IH"(1) obtain q where "p = (currentPath @ [n]) @ q" "q \<noteq> []" "\<forall>m \<in> set q. \<not> startsWith_dot m"
      by blast
    with nd have "p = currentPath @ (n # q) \<and> n # q \<noteq> [] \<and> (\<forall>m \<in> set (n # q). \<not> startsWith_dot m)"
      by simp
    then show ?thesis by blast
  qed
next
  case (4 currentPath n es)
  then show ?case by simp
next
  case (5 currentPath n es)
  then show ?case by simp
qed

lemma getFilesRecursively_below:
  "p \<in> set (getFilesRecursively tree dir) \<Longrightarrow>
     \<exists>q. p = dir @ q \<and> q \<noteq> [] \<and> (\<forall>n \<in> set q. \<not> startsWith_dot n)"
  by (auto simp: getFilesRecursively_def split: option.splits dest: traverse_below)

lemma getFilesRecursively_visible:
  "p \<in> set (getFilesRecursively tree dir) \<Longrightarrow> visible p"
  by (auto simp: visible_def dest!: getFilesRecursively_below)

lemma sanitize_https: "sanitizeUrlForFilename ''https://'' = []"
  by (simp add: sanitizeUrlForFilename_def replace_reserved_def trim_leading_def trim_trailing_def)

lemma createDocuments_source:
  "createDocuments ev f c = Some docs \<Longrightarrow> d \<in> set docs \<Longrightarrow> source d = f"
  by (auto simp: createDocuments_def split: if_splits)

lemma indexDocuments_sources:
  "indexDocuments ev kb f h docs s = (r, s') \<Longrightarrow>
     set (store_docs s') \<subseteq> set (store_docs s) \<union> set docs"
  by (auto simp: indexDocuments_def store_docs_def hash_written_def store_saved_def save_call_def
      add_to_store_def embed_call_def log_event_def split: if_splits option.splits)

lemma store_docs_log_event [simp]: "store_docs (log_event e s) = store_docs s"
  by (simp add: store_docs_def log_event_def)

lemma processFile_sources:
  assumes "processFile ev kb f s = (r, s')" and "d \<in> set (store_docs s')"
  shows "d \<in> set (store_docs s) \<or> source d = f"
proof (cases "\<exists>h c docs. calculateSHA256 s f = Some h \<and> mkdir_index_dir ev (indexDirPath kb f) = None
    \<and> hash_files s (indexFilePath kb f) \<noteq> Some h \<and> readFile s f = Some c
    \<and> createDocuments ev f c = Some docs")
  case True
  then obtain h c docs where h: "calculateSHA256 s f = Some h" "mkdir_index_dir ev (indexDirPath kb f) = None"
    "hash_files s (indexFilePath kb f) \<noteq> Some h" "readFile s f = Some c"
    "createDocuments ev f c = Some docs" by blast
  with assms(1) have "indexDocuments ev kb f h docs (log_event (ContentRead f) s) = (r, s')"
    by (simp add: processFile_def)
  from indexDocuments_sources [OF this] assms(2)
  have "d \<in> set (store_docs s) \<or> d \<in> set docs" by auto
  with h(5) show ?thesis by (auto dest: createDocuments_source)
next
  case False
  with assms(1) have "store_docs s' = store_docs s"
    by (auto simp: processFile_def split: option.splits if_splits)
  with assms(2) show ?thesis by simp
qed

lemma processFiles_sources:
  "processFiles ev kb fs s = (r, s') \<Longrightarrow> d \<in> set (store_docs s') \<Longrightarrow>
     d \<in> set (store_docs s) \<or> source d \<in> set fs"
proof (induction fs arbitrary: s)
  case Nil
  then show ?case by simp
next
  case (Cons f fs)
  obtain r1 s1 where p: "processFile ev kb f s = (r1, s1)" by (cases "processFile ev kb f s")
  show ?case
  proof (cases r1)
    case None
    with p Cons.prems have "processFiles ev kb fs s1 = (r, s')" by simp
    from Cons.IH [OF this Cons.prems(2)] have "d \<in> set (store_docs s1) \<or> source d \<in> set fs" .
    with processFile_sources [OF p] show ?thesis by auto
  next
    case (Some e)
    with p Cons.prems have "s' = s1" by simp
    with processFile_sources [OF p] Cons.prems(2) show ?thesis by auto
  qed
qed

lemma processKnowledgeBases_sources:
  "processKnowledgeBases ev kbs a s = (r, a', s') \<Longrightarrow> d \<in> set (store_docs s') \<Longrightarrow>
     d \<in> set (store_docs s) \<or> visible (source d)"
proof (induction kbs arbitrary: a s)
  case Nil
  then show ?case by simp
next
  case (Cons k kbs)
  show ?case
  proof (cases "startsWith_dot k")
    case True
    with Cons show ?thesis by simp
  next
    case False
    obtain r1 s1 where p: "processFiles ev (knowledgeBasePath ev k) (getFilesRecursively (fs_tree s) (knowledgeBasePath ev k)) s = (r1, s1)"
      by (cases "processFiles ev (knowledgeBasePath ev k) (getFilesRecursively (fs_tree s) (knowledgeBasePath ev k)) s")
    have step: "\<And>x. x \<in> set (store_docs s1) \<Longrightarrow> x \<in> set (store_docs s) \<or> visible (source x)"
      using processFiles_sources [OF p] by (auto dest: getFilesRecursively_visible)
    show ?thesis
    proof (cases r1)
      case None
      with p False Cons.prems
      have "processKnowledgeBases ev kbs (a \<or> getFilesRecursively (fs_tree s) (knowledgeBasePath ev k) \<noteq> []) s1 = (r, a', s')"
        by simp
      from Cons.IH [OF this Cons.prems(2)] step show ?thesis by auto
    next
      case (Some e)
      with p False Cons.prems have "s' = s1" by simp
      with step Cons.prems(2) show ?thesis by auto
    qed
  qed
qed

lemma collectFiles_sources:
  "collectFiles ev fs acc s = (r, docs, s') \<Longrightarrow> d \<in> set docs \<Longrightarrow>
     d \<in> set acc \<or> source d \<in> set fs"
proof (induction fs arbitrary: acc s)
  case Nil
  then show ?case by simp
next
  case (Cons f fs)
  show ?case
  proof (cases "readFile s f")
    case None
    with Cons.prems have "collectFiles ev fs acc (log_event (LoggedError f) (log_event (ContentRead f) s)) = (r, docs, s')"
      by simp
    from Cons.IH [OF this Cons.prems(2)] show ?thesis by auto
  next
    case (Some c)
    show ?thesis
    proof (cases "createDocuments ev f c")
      case None
      with Some Cons.prems show ?thesis by auto
    next
      case (Some ds)
      with \<open>readFile s f = Some c\<close> Cons.prems
      have "collectFiles ev fs (acc @ ds) (log_event (ContentRead f) s) = (r, docs, s')" by simp
      from Cons.IH [OF this Cons.prems(2)] Some show ?thesis
        by (auto dest: createDocuments_source)
    qed
  qed
qed

lemma collectKnowledgeBases_sources:
  "collectKnowledgeBases ev kbs acc s = (r, docs, s') \<Longrightarrow> d \<in> set docs \<Longrightarrow>
     d \<in> set acc \<or> visible (source d)"
proof (induction kbs arbitrary: acc s)
  case Nil
  then show ?case by simp
next
  case (Cons k kbs)
  show ?case
  proof (cases "startsWith_dot k")
    case True
    with Cons show ?thesis by simp
  next
    case False
    obtain r1 d1 s1 where p: "collectFiles ev (getFilesRecursively (fs_tree s) (knowledgeBasePath ev k)) acc s = (r1, d1, s1)"
      by (cases "collectFiles ev (getFilesRecursively (fs_tree s) (knowledgeBasePath ev k)) acc s")
    have step: "\<And>x. x \<in> set d1 \<Longrightarrow> x \<in> set acc \<or> visible (source x)"
      using collectFiles_sources [OF p] by (auto dest: getFilesRecursively_visible)
    show ?thesis
    proof (cases r1)
      case None
      with p False Cons.prems have "collectKnowledgeBases ev kbs d1 s1 = (r, docs, s')" by simp
      from Cons.IH [OF this Cons.prems(2)] step show ?thesis by auto
    next
      case (Some e)
      with p False Cons.prems have "docs = d1" by simp
      with step Cons.prems(2) show ?thesis by auto
    qed
  qed
qed

lemma only_reads_refl [simp]: "only_reads s s"
  by (auto simp: only_reads_def intro: exI [of _ "[]"])

lemma only_reads_trans: "only_reads s t \<Longrightarrow> only_reads t u \<Longrightarrow> only_reads s u"
proof -
  assume "only_reads s t" and "only_reads t u"
  then obtain e1 e2 where "t = s\<lparr>trace := trace s @ e1\<rparr>" "list_all quiet_event e1"
    "u = t\<lparr>trace := trace t @ e2\<rparr>" "list_all quiet_event e2"
    by (auto simp: only_reads_def)
  then have "u = s\<lparr>trace := trace s @ (e1 @ e2)\<rparr> \<and> list_all quiet_event (e1 @ e2)" by simp
  then show ?thesis unfolding only_reads_def by blast
qed

lemma only_reads_log:
  "quiet_event e \<Longrightarrow> only_reads s (log_event e s)"
  by (auto simp: only_reads_def log_event_def intro: exI [of _ "[e]"])

lemma only_reads_store: "only_reads s s' \<Longrightarrow> store_docs s' = store_docs s"
  by (auto simp: only_reads_def store_docs_def)

lemma collectFiles_only_reads:
  "collectFiles ev fs acc s = (r, docs, s') \<Longrightarrow> only_reads s s'"
proof (induction fs arbitrary: acc s)
  case Nil
  then show ?case by simp
next
  case (Cons f fs)
  have l1: "only_reads s (log_event (ContentRead f) s)" by (simp add: only_reads_log)
  have l2: "only_reads s (log_event (LoggedError f) (log_event (ContentRead f) s))"
    by (rule only_reads_trans [OF l1]) (simp add: only_reads_log)
  show ?case
  proof (cases "readFile s f")
    case None
    with Cons.prems have "collectFiles ev fs acc (log_event (LoggedError f) (log_event (ContentRead f) s)) = (r, docs, s')"
      by simp
    from Cons.IH [OF this] l2 show ?thesis by (rule only_reads_trans [rotated])
  next
    case (Some c)
    show ?thesis
    proof (cases "createDocuments ev f c")
      case None
      with Some Cons.prems l1 show ?thesis by auto
    next
      case (Some ds)
      with \<open>readFile s f = Some c\<close> Cons.prems
      have "collectFiles ev fs (acc @ ds) (log_event (ContentRead f) s) = (r, docs, s')" by simp
      from Cons.IH [OF this] l1 show ?thesis by (rule only_reads_trans [rotated])
    qed
  qed
qed

lemma collectKnowledgeBases_only_reads:
  "collectKnowledgeBases ev kbs acc s = (r, docs, s') \<Longrightarrow> only_reads s s'"
proof (induction kbs arbitrary: acc s)
  case Nil
  then show ?case by simp
next
  case (Cons k kbs)
  show ?case
  proof (cases "startsWith_dot k")
    case True
    with Cons show ?thesis by simp
  next
    case False
    obtain r1 d1 s1 where p: "collectFiles ev (getFilesRecursively (fs_tree s) (knowledgeBasePath ev k)) acc s = (r1, d1, s1)"
      by (cases "collectFiles ev (getFilesRecursively (fs_tree s) (knowledgeBasePath ev k)) acc s")
    then have o: "only_reads s s1" by (rule collectFiles_only_reads)
    show ?thesis
    proof (cases r1)
      case None
      with p False Cons.prems have "collectKnowledgeBases ev kbs d1 s1 = (r, docs, s')" by simp
      from Cons.IH [OF this] o show ?thesis by (rule only_reads_trans [rotated])
    next
      case (Some e)
      with p False Cons.prems o show ?thesis by simp
    qed
  qed
qed

lemma collectKnowledgeBases_store:
  "collectKnowledgeBases ev kbs acc s = (r, docs, s') \<Longrightarrow> store_docs s' = store_docs s"
  by (auto dest!: collectKnowledgeBases_only_reads only_reads_store)

lemma rebuildIndex_sources:
  assumes "rebuildIndex ev kbs s = (r, s')" and "d \<in> set (store_docs s')"
  shows "d \<in> set (store_docs s) \<or> visible (source d)"
proof -
  obtain r1 d1 s1 where p: "collectKnowledgeBases ev kbs [] s = (r1, d1, s1)"
    by (cases "collectKnowledgeBases ev kbs [] s")
  have st: "store_docs s1 = store_docs s" using p by (rule collectKnowledgeBases_store)
  have vis: "\<And>x. x \<in> set d1 \<Longrightarrow> visible (source x)"
    using collectKnowledgeBases_sources [OF p] by auto
  from assms p have "d \<in> set (store_docs s1) \<or> d \<in> set d1"
    by (cases r1) (auto simp: rebuildIndex_def store_docs_def store_saved_def save_call_def
        embed_call_def log_event_def split: if_splits option.splits)
  with st vis show ?thesis by auto
qed

lemma updateIndex_sources:
  assumes "updateIndex ev kbo s = (r, s')" and "d \<in> set (store_docs s')"
  shows "d \<in> set (store_docs s) \<or> visible (source d)"
proof (cases "knowledgeBases_of ev kbo s")
  case None
  with assms show ?thesis by (simp add: updateIndex_def)
next
  case (Some kbs)
  obtain r1 a1 s1 where p: "processKnowledgeBases ev kbs False s = (r1, a1, s1)"
    by (cases "processKnowledgeBases ev kbs False s")
  have step: "\<And>x. x \<in> set (store_docs s1) \<Longrightarrow> x \<in> set (store_docs s) \<or> visible (source x)"
    using processKnowledgeBases_sources [OF p] by auto
  show ?thesis
  proof (cases r1)
    case None
    show ?thesis
    proof (cases "faissIndex s1 = None \<and> a1")
      case True
      with None Some p assms(1) have "rebuildIndex ev kbs s1 = (r, s')" by (simp add: updateIndex_def)
      from rebuildIndex_sources [OF this assms(2)] step show ?thesis by auto
    next
      case False
      with None Some p assms(1) have "s' = s1" by (auto simp: updateIndex_def)
      with step assms(2) show ?thesis by auto
    qed
  next
    case (Some e)
    with \<open>knowledgeBases_of ev kbo s = Some kbs\<close> p assms(1) have "s' = s1" by (simp add: updateIndex_def)
    with step assms(2) show ?thesis by auto
  qed
qed

lemma put_entry_find:
  "put_entry e es = Some es' \<Longrightarrow> find_entry (dirent_name e) es' = Some e"
  by (induction es arbitrary: es') (auto split: if_splits dirent.splits)

lemma find_entry_name: "find_entry n es = Some x \<Longrightarrow> dirent_name x = n"
  by (induction es) (auto split: if_splits)

lemma find_replace_entry:
  "find_entry (dirent_name e) es \<noteq> None \<Longrightarrow> find_entry (dirent_name e) (replace_entry e es) = Some e"
  by (induction es) auto

lemma fs_lookup_Cons:
  "ms \<noteq> [] \<Longrightarrow>
     fs_lookup es (n # ms) =
       (case find_entry n es of Some (DirEnt x sub) \<Rightarrow> fs_lookup sub ms | _ \<Rightarrow> None)"
  by (cases ms) (simp_all split: option.splits dirent.splits)

lemma write_at_lookup:
  "write_at dir e es = Some es' \<Longrightarrow> fs_lookup es' (dir @ [dirent_name e]) = Some e"
proof (induction dir arbitrary: es es')
  case Nil
  then show ?case by (simp add: put_entry_find)
next
  case (Cons n ns)
  from Cons.prems obtain x sub sub' where f: "find_entry n es = Some (DirEnt x sub)"
    and w: "write_at ns e sub = Some sub'" and es': "es' = replace_entry (DirEnt n sub') es"
    by (auto split: option.splits dirent.splits)
  from f have "find_entry (dirent_name (DirEnt n sub')) es \<noteq> None" by simp
  from find_replace_entry [OF this] es' have "find_entry n es' = Some (DirEnt n sub')" by simp
  with Cons.IH [OF w] show ?case by (simp add: fs_lookup_Cons)
qed

lemma writeFile_tree_lookup:
  assumes "writeFile_tree tree p d c = Some es'"
  shows "fs_lookup es' p = Some (FileEnt (last p) d c)"
proof -
  from assms obtain es where "p \<noteq> []" and w: "write_at (butlast p) (FileEnt (last p) d c) es = Some es'"
    by (auto simp: writeFile_tree_def split: option.splits if_splits)
  from write_at_lookup [OF w] \<open>p \<noteq> []\<close> show ?thesis by simp
qed

lemma write_markdown_file_written:
  assumes "write_markdown_file w dir n c s = (Inr p, s1)"
  shows "p = path_join dir n \<and> readFile s1 p = Some c \<and>
         trace s1 = trace s @ [MarkdownWritten p]"
proof (cases "write_markdown w (path_join dir n)")
  case (Some e)
  with assms(1) show ?thesis by (simp add: write_markdown_file_def)
next
  case None
  note nofault = None
  show ?thesis
  proof (cases "writeFile_tree (fs_tree s) (path_join dir n) (Some (digest_of w c)) (Some c)")
    case None
    with nofault assms(1) show ?thesis by (simp add: write_markdown_file_def)
  next
    case (Some es')
    with nofault assms(1) have p: "p = path_join dir n"
      and s1: "fs_tree s1 = Some es'" and t: "trace s1 = trace s @ [MarkdownWritten p]"
      by (auto simp: write_markdown_file_def log_event_def)
    from writeFile_tree_lookup [OF Some] s1
    have "readFile s1 (path_join dir n) = Some c" by (simp add: readFile_def)
    with p t show ?thesis by blast
  qed
qed

lemma ensure_kb_dir_trace: "ensure_kb_dir w kb s = (r, s1) \<Longrightarrow> trace s1 = trace s"
  by (auto simp: ensure_kb_dir_def split: option.splits if_splits)

lemma saveMarkdown_written:
  assumes "saveMarkdown w kb u title md s = (Inr p, s1)"
  shows "p = path_join (path_join (web_root_dir w) kb) (markdown_filename u) \<and>
         readFile s1 p = Some (frontmatter w u title @ md) \<and>
         faissIndex s1 = faissIndex s \<and>
         trace s1 = trace s @ [MarkdownWritten p]"
proof -
  obtain r0 s0 where e: "ensure_kb_dir w kb s = (r0, s0)" by (cases "ensure_kb_dir w kb s")
  with assms have wm: "write_markdown_file w (path_join (web_root_dir w) kb) (markdown_filename u)
      (frontmatter w u title @ md) s0 = (Inr p, s1)"
    by (cases r0) (auto simp: saveMarkdown_def)
  from write_markdown_file_written [OF wm] saveMarkdown_frame [OF assms] ensure_kb_dir_trace [OF e]
  show ?thesis by auto
qed

section \<open>Files the scan has nothing to do for\<close>

lemma only_reads_files: "only_reads s s' \<Longrightarrow> fs_tree s' = fs_tree s \<and> hash_files s' = hash_files s
   \<and> faissIndex s' = faissIndex s \<and> index_file s' = index_file s"
  by (auto simp: only_reads_def)

lemma same_tree_reads:
  "fs_tree s' = fs_tree s \<Longrightarrow>
     calculateSHA256 s' f = calculateSHA256 s f \<and> readFile s' f = readFile s f"
  by (simp add: calculateSHA256_def readFile_def)




lemma indexDocuments_hash:
  "indexDocuments ev kb f h docs s = (r, s') \<Longrightarrow>
     fs_tree s' = fs_tree s \<and>
     (hash_files s' = hash_files s \<or>
      (r = None \<and> docs \<noteq> [] \<and> save_index ev f = None \<and>
       hash_files s' = (hash_files s)(indexFilePath kb f \<mapsto> h)))"
  by (auto simp: indexDocuments_def hash_written_def store_saved_def save_call_def
      add_to_store_def embed_call_def log_event_def split: if_splits option.splits)


lemma processFile_hash:
  assumes "processFile ev kb f s = (r, s')"
  shows "fs_tree s' = fs_tree s \<and>
     (hash_files s' = hash_files s \<or>
      (\<exists>h. r = None \<and> calculateSHA256 s f = Some h \<and> save_index ev f = None \<and>
         hash_files s' = (hash_files s)(indexFilePath kb f \<mapsto> h)))"
proof (cases "\<exists>h c docs. calculateSHA256 s f = Some h \<and> mkdir_index_dir ev (indexDirPath kb f) = None
    \<and> hash_files s (indexFilePath kb f) \<noteq> Some h \<and> readFile s f = Some c
    \<and> createDocuments ev f c = Some docs")
  case True
  then obtain h c docs where h: "calculateSHA256 s f = Some h" "mkdir_index_dir ev (indexDirPath kb f) = None"
    "hash_files s (indexFilePath kb f) \<noteq> Some h" "readFile s f = Some c"
    "createDocuments ev f c = Some docs" by blast
  with assms have "indexDocuments ev kb f h docs (log_event (ContentRead f) s) = (r, s')"
    by (simp add: processFile_def)
  from indexDocuments_hash [OF this] h(1) show ?thesis by (auto simp: log_event_def)
next
  case False
  with assms have "fs_tree s' = fs_tree s \<and> hash_files s' = hash_files s"
    by (auto simp: processFile_def log_event_def split: option.splits if_splits)
  then show ?thesis by simp
qed














section \<open>Running updateIndex a second time\<close>







section \<open>When a hash record changes\<close>

lemma processFile_hash_change:
  assumes "processFile ev kb f s = (r, s')" and "hash_files s' key \<noteq> hash_files s key"
  shows "key = indexFilePath kb f \<and> save_index ev f = None \<and> r = None"
proof -
  from processFile_hash [OF assms(1)] consider (same) "hash_files s' = hash_files s"
    | (upd) h where "r = None" "save_index ev f = None"
        "hash_files s' = (hash_files s)(indexFilePath kb f \<mapsto> h)"
    by blast
  then show ?thesis
  proof cases
    case same
    with assms(2) show ?thesis by simp
  next
    case upd
    have "key = indexFilePath kb f"
    proof (rule ccontr)
      assume "key \<noteq> indexFilePath kb f"
      then have "hash_files s' key = hash_files s key" by (simp add: upd(3))
      with assms(2) show False by simp
    qed
    with upd show ?thesis by simp
  qed
qed

lemma processFiles_hash_change:
  "processFiles ev kb fs s = (r, s') \<Longrightarrow> hash_files s' key \<noteq> hash_files s key \<Longrightarrow>
     \<exists>f \<in> set fs. key = indexFilePath kb f \<and> save_index ev f = None"
proof (induction fs arbitrary: s)
  case Nil
  then show ?case by simp
next
  case (Cons g fs)
  obtain r1 s1 where p: "processFile ev kb g s = (r1, s1)" by (cases "processFile ev kb g s")
  show ?case
  proof (cases "hash_files s1 key = hash_files s key")
    case False
    from processFile_hash_change [OF p False] show ?thesis by simp
  next
    case True
    with Cons.prems(2) have ch: "hash_files s' key \<noteq> hash_files s1 key" by simp
    show ?thesis
    proof (cases r1)
      case None
      with p Cons.prems(1) have "processFiles ev kb fs s1 = (r, s')" by simp
      from Cons.IH [OF this ch] show ?thesis by auto
    next
      case (Some e)
      with p Cons.prems(1) have "s' = s1" by simp
      with ch show ?thesis by simp
    qed
  qed
qed

lemma processKnowledgeBases_hash_change:
  "processKnowledgeBases ev kbs a s = (r, a', s') \<Longrightarrow> hash_files s' key \<noteq> hash_files s key \<Longrightarrow>
     \<exists>k \<in> set kbs. \<exists>f \<in> set (getFilesRecursively (fs_tree s) (knowledgeBasePath ev k)).
        key = indexFilePath (knowledgeBasePath ev k) f \<and> save_index ev f = None"
proof (induction kbs arbitrary: a s)
  case Nil
  then show ?case by simp
next
  case (Cons k kbs)
  show ?case
  proof (cases "startsWith_dot k")
    case True
    with Cons.prems(1) have "processKnowledgeBases ev kbs a s = (r, a', s')" by simp
    from Cons.IH [OF this Cons.prems(2)] show ?thesis by auto
  next
    case False
    obtain r1 s1 where p: "processFiles ev (knowledgeBasePath ev k) (getFilesRecursively (fs_tree s) (knowledgeBasePath ev k)) s = (r1, s1)"
      by (cases "processFiles ev (knowledgeBasePath ev k) (getFilesRecursively (fs_tree s) (knowledgeBasePath ev k)) s")
    from processFiles_same_files [OF p] have kr: "fs_tree s1 = fs_tree s" by (simp add: same_files_def)
    show ?thesis
    proof (cases "hash_files s1 key = hash_files s key")
      case False
      from processFiles_hash_change [OF p False] show ?thesis by auto
    next
      case True
      with Cons.prems(2) have ch: "hash_files s' key \<noteq> hash_files s1 key" by simp
      show ?thesis
      proof (cases r1)
        case None
        with p \<open>\<not> startsWith_dot k\<close> Cons.prems(1)
        have "processKnowledgeBases ev kbs (a \<or> getFilesRecursively (fs_tree s) (knowledgeBasePath ev k) \<noteq> []) s1 = (r, a', s')"
          by simp
        from Cons.IH [OF this ch] kr show ?thesis by auto
      next
        case (Some e)
        with p \<open>\<not> startsWith_dot k\<close> Cons.prems(1) have "s' = s1" by simp
        with ch show ?thesis by simp
      qed
    qed
  qed
qed

lemma rebuildIndex_hash:
  assumes "rebuildIndex ev kbs s = (r, s')"
  shows "hash_files s' = hash_files s"
proof -
  obtain rc docs s1 where co: "collectKnowledgeBases ev kbs [] s = (rc, docs, s1)"
    by (cases "collectKnowledgeBases ev kbs [] s")
  from only_reads_files [OF collectKnowledgeBases_only_reads [OF co]]
  have "hash_files s1 = hash_files s" by simp
  with assms co show ?thesis
    by (cases rc) (auto simp: rebuildIndex_def store_saved_def save_call_def embed_call_def
        log_event_def split: if_splits option.splits)
qed

lemma updateIndex_hash_change:
  assumes "updateIndex ev kbo s = (r, s')" and "hash_files s' key \<noteq> hash_files s key"
  shows "\<exists>k f. f \<in> set (getFilesRecursively (fs_tree s) (knowledgeBasePath ev k)) \<and>
           key = indexFilePath (knowledgeBasePath ev k) f \<and> save_index ev f = None"
proof (cases "knowledgeBases_of ev kbo s")
  case None
  with assms show ?thesis by (simp add: updateIndex_def)
next
  case (Some kbs)
  obtain r1 a1 s1 where pk: "processKnowledgeBases ev kbs False s = (r1, a1, s1)"
    by (cases "processKnowledgeBases ev kbs False s")
  have "hash_files s' = hash_files s1"
  proof (cases r1)
    case None
    show ?thesis
    proof (cases "faissIndex s1 = None \<and> a1")
      case True
      with None Some pk assms(1) have "rebuildIndex ev kbs s1 = (r, s')" by (simp add: updateIndex_def)
      then show ?thesis by (rule rebuildIndex_hash)
    next
      case False
      with None Some pk assms(1) show ?thesis by (auto simp: updateIndex_def)
    qed
  next
    case (Some e)
    with \<open>knowledgeBases_of ev kbo s = Some kbs\<close> pk assms(1) show ?thesis by (simp add: updateIndex_def)
  qed
  with assms(2) have "hash_files s1 key \<noteq> hash_files s key" by simp
  from processKnowledgeBases_hash_change [OF pk this] show ?thesis by blast
qed

lemma indexDocuments_trace:
  assumes "indexDocuments ev kb f h docs s = (r, s')" and "hash_files s' \<noteq> hash_files s"
  shows "r = None \<and> docs \<noteq> [] \<and> save_index ev f = None \<and>
     hash_files s' = (hash_files s)(indexFilePath kb f \<mapsto> h) \<and>
     faissIndex s' = Some (store_docs s @ docs) \<and> index_file s' = Some (store_docs s @ docs) \<and>
     trace s' = trace s @ [EmbedCall docs, SaveCall, StoreSaved, HashWritten (indexFilePath kb f) h]"
proof -
  from assms have ne: "docs \<noteq> []" by (auto simp: indexDocuments_def)
  from assms ne have ef: "\<not> embed_fails ev f"
    by (auto simp: indexDocuments_def embed_call_def log_event_def)
  from assms ne ef have sv: "save_index ev f = None"
    by (cases "save_index ev f")
      (auto simp: indexDocuments_def embed_call_def save_call_def add_to_store_def log_event_def)
  from assms ne ef sv have wh: "write_hash ev f = None"
    by (cases "write_hash ev f")
      (auto simp: indexDocuments_def embed_call_def save_call_def add_to_store_def
        store_saved_def log_event_def)
  from assms(1) ne ef sv wh
  have "r = None" and "s' = hash_written (indexFilePath kb f) h
          (store_saved (save_call (add_to_store docs (embed_call docs s))))"
    by (simp_all add: indexDocuments_def)
  with ne sv show ?thesis
    by (cases "faissIndex s")
      (simp_all add: hash_written_def store_saved_def save_call_def add_to_store_def
        embed_call_def log_event_def store_docs_def)
qed

section \<open>The trace only grows\<close>

lemma trace_grows_trans:
  "\<exists>e1. (t1 :: event list) = t0 @ e1 \<Longrightarrow> \<exists>e2. t2 = t1 @ e2 \<Longrightarrow> \<exists>e. t2 = t0 @ e"
  by auto

lemma only_reads_trace: "only_reads s s' \<Longrightarrow> \<exists>evs. trace s' = trace s @ evs"
  by (auto simp: only_reads_def)

lemma indexDocuments_grows:
  "indexDocuments ev kb f h docs s = (r, s') \<Longrightarrow> \<exists>evs. trace s' = trace s @ evs"
  by (auto simp: indexDocuments_def hash_written_def store_saved_def save_call_def
      add_to_store_def embed_call_def log_event_def split: if_splits option.splits)

lemma processFile_grows:
  "processFile ev kb f s = (r, s') \<Longrightarrow> \<exists>evs. trace s' = trace s @ evs"
  by (auto simp: processFile_def log_event_def split: if_splits option.splits
      dest!: indexDocuments_grows)

lemma processFiles_grows:
  "processFiles ev kb fs s = (r, s') \<Longrightarrow> \<exists>evs. trace s' = trace s @ evs"
proof (induction fs arbitrary: s)
  case Nil
  then show ?case by simp
next
  case (Cons f fs)
  obtain r1 s1 where p: "processFile ev kb f s = (r1, s1)" by (cases "processFile ev kb f s")
  note g1 = processFile_grows [OF p]
  show ?case
  proof (cases r1)
    case None
    with Cons.prems p have "processFiles ev kb fs s1 = (r, s')" by simp
    from trace_grows_trans [OF g1 Cons.IH [OF this]] show ?thesis .
  next
    case (Some e)
    with Cons.prems p have "s' = s1" by simp
    with g1 show ?thesis by simp
  qed
qed

lemma processKnowledgeBases_grows:
  "processKnowledgeBases ev kbs a s = (r, a', s') \<Longrightarrow> \<exists>evs. trace s' = trace s @ evs"
proof (induction kbs arbitrary: a s)
  case Nil
  then show ?case by simp
next
  case (Cons k kbs)
  show ?case
  proof (cases "startsWith_dot k")
    case True
    with Cons show ?thesis by simp
  next
    case False
    obtain r1 s1 where p: "processFiles ev (knowledgeBasePath ev k)
        (getFilesRecursively (fs_tree s) (knowledgeBasePath ev k)) s = (r1, s1)"
      by (cases "processFiles ev (knowledgeBasePath ev k)
        (getFilesRecursively (fs_tree s) (knowledgeBasePath ev k)) s")
    note g1 = processFiles_grows [OF p]
    show ?thesis
    proof (cases r1)
      case None
      with Cons.prems p False
      have "processKnowledgeBases ev kbs
          (a \<or> getFilesRecursively (fs_tree s) (knowledgeBasePath ev k) \<noteq> []) s1 = (r, a', s')"
        by simp
      from trace_grows_trans [OF g1 Cons.IH [OF this]] show ?thesis .
    next
      case (Some e)
      with Cons.prems p False have "s' = s1" by simp
      with g1 show ?thesis by simp
    qed
  qed
qed

lemma rebuildIndex_grows:
  assumes "rebuildIndex ev kbs s = (r, s')"
  shows "\<exists>evs. trace s' = trace s @ evs"
proof -
  obtain r1 d1 s1 where p: "collectKnowledgeBases ev kbs [] s = (r1, d1, s1)"
    by (cases "collectKnowledgeBases ev kbs [] s")
  note g1 = only_reads_trace [OF collectKnowledgeBases_only_reads [OF p]]
  from assms p have "\<exists>e2. trace s' = trace s1 @ e2"
    by (cases r1) (auto simp: rebuildIndex_def store_saved_def save_call_def
        embed_call_def log_event_def split: if_splits option.splits)
  from trace_grows_trans [OF g1 this] show ?thesis .
qed

lemma updateIndex_grows:
  assumes "updateIndex ev kbo s = (r, s')"
  shows "\<exists>evs. trace s' = trace s @ evs"
proof (cases "knowledgeBases_of ev kbo s")
  case None
  with assms show ?thesis by (simp add: updateIndex_def)
next
  case (Some kbs)
  obtain r1 a1 s1 where p: "processKnowledgeBases ev kbs False s = (r1, a1, s1)"
    by (cases "processKnowledgeBases ev kbs False s")
  note g1 = processKnowledgeBases_grows [OF p]
  show ?thesis
  proof (cases "r1 = None \<and> faissIndex s1 = None \<and> a1")
    case True
    with assms Some p have "rebuildIndex ev kbs s1 = (r, s')"
      by (auto simp: updateIndex_def split: if_splits)
    from trace_grows_trans [OF g1 rebuildIndex_grows [OF this]] show ?thesis .
  next
    case False
    with assms Some p have "s' = s1"
      by (cases r1) (auto simp: updateIndex_def split: if_splits)
    with g1 show ?thesis by simp
  qed
qed

section \<open>File names that are empty after sanitizing\<close>

lemma sanitize_http_twice: "sanitizeUrlForFilename ''http://http://'' = []"
  by (simp add: sanitizeUrlForFilename_def replace_reserved_def trim_leading_def trim_trailing_def)

lemma path_join_dot_md: "path_join dir ''.md'' = dir @ [''.md'']"
  by (simp add: path_join_def)

section \<open>similaritySearch: a match above the threshold\<close>

text \<open>
  C1 at a concrete input: one stored document at distance 5 from the query, \<open>k = 1\<close>
  and no threshold supplied, so that the threshold is 2. \<open>similaritySearch\<close> builds the
  filter "score at most 2" and hands it to the store's query; the store does not consult
  it, \<open>similaritySearch\<close> compares no score with the threshold itself, and the match with
  score 5 is returned.
\<close>

theorem C1_match_above_threshold_returned:
  "resultsWithScore (quiet_env\<lparr>similaritySearchWithScore := far_query\<rparr>) [doc_a] ''alpha'' 1 None
     = far_query [doc_a] ''alpha'' 1 (ScoreLte 2) \<and>
   similaritySearch (quiet_env\<lparr>similaritySearchWithScore := far_query\<rparr>)
       (empty_state\<lparr>faissIndex := Some [doc_a]\<rparr>) ''alpha'' 1 None
     = Inr [\<lparr>res_pageContent = ''alpha'', res_source = [''kbs'', ''kb1'', ''a.txt''], score = 5\<rparr>] \<and>
   \<not> (5::real) \<le> threshold_or_default None"
  by (simp add: similaritySearch_def resultsWithScore_def quiet_env_def empty_state_def
      far_query_def with_score_def doc_a_def threshold_or_default_def)

section \<open>initialize: a changed embedding model\<close>

text \<open>
  C2, as stated, at a concrete input: the provider changes from \<open>ollama\<close> to
  \<open>openai\<close> while the model name stays the same. The first \<open>initialize\<close> persists
  only the model name; the second one finds it equal, keeps the store file and loads it.
\<close>

theorem C2_counterexample:
  "new_FaissIndexManager ollama_vars = Inr ollama_manager \<and>
   new_FaissIndexManager openai_vars = Inr openai_manager \<and>
   embeddingProvider ollama_manager \<noteq> embeddingProvider openai_manager \<and>
   fst (initialize ollama_manager quiet_env (empty_state\<lparr>index_file := Some [doc_a]\<rparr>)) = None \<and>
   model_name_file (snd (initialize ollama_manager quiet_env (empty_state\<lparr>index_file := Some [doc_a]\<rparr>)))
     = Some ''nomic-embed-text'' \<and>
   fst (initialize openai_manager quiet_env
          (snd (initialize ollama_manager quiet_env (empty_state\<lparr>index_file := Some [doc_a]\<rparr>)))) = None \<and>
   index_file (snd (initialize openai_manager quiet_env
          (snd (initialize ollama_manager quiet_env (empty_state\<lparr>index_file := Some [doc_a]\<rparr>)))))
     = Some [doc_a] \<and>
   faissIndex (snd (initialize openai_manager quiet_env
          (snd (initialize ollama_manager quiet_env (empty_state\<lparr>index_file := Some [doc_a]\<rparr>)))))
     = Some [doc_a]"
  by (simp add: new_FaissIndexManager_def ollama_vars_def openai_vars_def ollama_manager_def
      openai_manager_def EMBEDDING_PROVIDER_def or_default_def OLLAMA_MODEL_def OLLAMA_BASE_URL_def
      OPENAI_MODEL_NAME_def missing_def initialize_def init_check_model_def init_load_and_persist_def
      read_storedModelName_def model_changed_def quiet_env_def empty_state_def)

text \<open>
  C2 (amended): the persisted identity is the model name alone. The provider name is
  neither persisted nor compared: two configurations with the same model name are
  initialized alike, and the only value \<open>initialize\<close> ever persists is the live model
  name. Whenever the persisted model name differs from the live one and no store is
  persisted, \<open>initialize\<close> (the index directory existing or being creatable, the model
  name writable) returns with the in-memory handle null and the live model name persisted.
  No knowledge-base file is consulted. What \<open>initialize\<close> does on such a difference
  when a store is persisted is not part of this statement.
\<close>

theorem C2_model_name_is_the_identity:
  "(modelName m = modelName m' \<longrightarrow> initialize m ev s = initialize m' ev s) \<and>
   (model_name_file (snd (initialize m ev s)) = model_name_file s \<or>
    model_name_file (snd (initialize m ev s)) = Some (modelName m)) \<and>
   (model_name_file s = Some stored \<and> stored \<noteq> modelName m \<and> index_file s = None \<and>
    (faiss_dir s \<or> mkdir_faiss_dir ev = None) \<and> write_model_name ev = None \<longrightarrow>
      initialize m ev s
        = (None, s\<lparr>faiss_dir := True, faissIndex := None, model_name_file := Some (modelName m)\<rparr>)) \<and>
   initialize m ev (s\<lparr>fs_tree := tree\<rparr>)
     = (fst (initialize m ev s), (snd (initialize m ev s))\<lparr>fs_tree := tree\<rparr>)"
  by (auto simp: initialize_def init_check_model_def init_load_and_persist_def
      read_storedModelName_def model_changed_def split: option.splits)

theorem C2_model_name_is_the_identity_witness:
  "modelName ollama_manager = modelName openai_manager \<and>
   initialize ollama_manager quiet_env (empty_state\<lparr>index_file := Some [doc_a]\<rparr>)
     = initialize openai_manager quiet_env (empty_state\<lparr>index_file := Some [doc_a]\<rparr>) \<and>
   ''nomic-embed-text'' \<noteq> modelName minilm_manager \<and>
   initialize minilm_manager quiet_env
       (empty_state\<lparr>model_name_file := Some ''nomic-embed-text'', faissIndex := Some [doc_a]\<rparr>)
     = (None, empty_state\<lparr>model_name_file := Some ''all-minilm'', faissIndex := None,
          faiss_dir := True\<rparr>)"
  using C2_model_name_is_the_identity
    [of ollama_manager openai_manager quiet_env "empty_state\<lparr>index_file := Some [doc_a]\<rparr>"
        "''nomic-embed-text''" "Some []"]
    C2_model_name_is_the_identity
    [of minilm_manager minilm_manager quiet_env
        "empty_state\<lparr>model_name_file := Some ''nomic-embed-text'', faissIndex := Some [doc_a]\<rparr>"
        "''nomic-embed-text''" "Some []"]
  by (simp add: initialize_def init_check_model_def init_load_and_persist_def
      read_storedModelName_def model_changed_def quiet_env_def empty_state_def minilm_manager_def
      ollama_manager_def openai_manager_def)

text \<open>
  With a persisted store the deletion is attempted and fails: the store was saved as a
  directory, \<^verbatim>\<open>fsp.unlink\<close> throws on it, and \<open>initialize\<close> ends with that error, the
  stale store and the old model name still in place.
\<close>

lemma stale_store_is_not_deleted:
  assumes "model_name_file s = Some stored" and "\<not> read_model_name_fails ev"
    and "stored \<noteq> []" and "stored \<noteq> modelName m" and "index_file s = Some st"
    and "faiss_dir s \<or> mkdir_faiss_dir ev = None"
  shows "fst (initialize m ev s)
           = Some (handleFsOperationError ''delete stale FAISS index'' (unlink_errno ev)) \<and>
         index_file (snd (initialize m ev s)) = Some st \<and>
         model_name_file (snd (initialize m ev s)) = Some stored \<and>
         faissIndex (snd (initialize m ev s)) = faissIndex s"
  using assms
  by (auto simp: initialize_def init_check_model_def read_storedModelName_def model_changed_def
      split: option.splits)

section \<open>approveUrl: all or nothing\<close>

text \<open>
  C4: \<open>approveUrl\<close> fails when no record has the id and when the record's status is not
  \<open>pending\<close>; then, and when the fetch or the conversion fails, the state is untouched;
  when the markdown file cannot be written the pending-list file is as before. The
  pending-list file changes only after the file write has succeeded: then the record was
  pending, fetch and conversion succeeded, the markdown file is in the tree at the
  returned path with the front matter and the converted text, the trace continues with the
  file write followed by the write of the pending list, the list holds this record marked
  \<open>approved\<close>, and the final state is the one the re-index of the record's knowledge
  base leaves.
\<close>

theorem C4_approveUrl_all_or_nothing:
  assumes "approveUrl (server_reindex ev) w i s = (r, s')"
  shows "(i \<notin> url_id ` set (loadPendingUrls s) \<longrightarrow> r = Inl (NoPendingUrl i) \<and> s' = s) \<and>
         (find (\<lambda>u. url_id u = i) (loadPendingUrls s) = Some entry \<and> status entry \<noteq> Pending \<longrightarrow>
            r = Inl (WrongStatus i (status entry)) \<and> s' = s) \<and>
         (find (\<lambda>u. url_id u = i) (loadPendingUrls s) = Some entry \<and> status entry = Pending \<and>
          fetchAndConvert w (url entry) = Inl e \<longrightarrow> r = Inl e \<and> s' = s) \<and>
         (find (\<lambda>u. url_id u = i) (loadPendingUrls s) = Some entry \<and> status entry = Pending \<and>
          fetchAndConvert w (url entry) = Inr (markdown, title) \<and>
          fst (saveMarkdown w (knowledge_base entry) (url entry) title markdown s) = Inl e \<longrightarrow>
            r = Inl e \<and> pending_urls_file s' = pending_urls_file s) \<and>
         (pending_urls_file s' \<noteq> pending_urls_file s \<longrightarrow>
            (\<exists>ent md ti p s1 evs. find (\<lambda>u. url_id u = i) (loadPendingUrls s) = Some ent \<and>
               status ent = Pending \<and> fetchAndConvert w (url ent) = Inr (md, ti) \<and>
               saveMarkdown w (knowledge_base ent) (url ent) ti md s = (Inr p, s1) \<and>
               readFile s' p = Some (frontmatter w (url ent) ti @ md) \<and>
               trace s' = trace s @ [MarkdownWritten p, PendingSaved] @ evs \<and>
               s' = snd (server_reindex ev (knowledge_base ent)
                      (log_event PendingSaved
                         (s1\<lparr>pending_urls_file := Listing (mark_approved i (loadPendingUrls s))\<rparr>))) \<and>
               pending_urls_file s' = Listing (mark_approved i (loadPendingUrls s))))"
proof -
  have c1: "i \<notin> url_id ` set (loadPendingUrls s) \<longrightarrow> r = Inl (NoPendingUrl i) \<and> s' = s"
  proof
    assume "i \<notin> url_id ` set (loadPendingUrls s)"
    then have "find (\<lambda>u. url_id u = i) (loadPendingUrls s) = None" by (simp add: find_None_ids)
    with assms show "r = Inl (NoPendingUrl i) \<and> s' = s" by (simp add: approveUrl_def)
  qed
  have c2: "find (\<lambda>u. url_id u = i) (loadPendingUrls s) = Some entry \<and> status entry \<noteq> Pending \<longrightarrow>
            r = Inl (WrongStatus i (status entry)) \<and> s' = s"
    using assms by (auto simp: approveUrl_def)
  have c3: "find (\<lambda>u. url_id u = i) (loadPendingUrls s) = Some entry \<and> status entry = Pending \<and>
          fetchAndConvert w (url entry) = Inl e \<longrightarrow> r = Inl e \<and> s' = s"
    using assms by (auto simp: approveUrl_def)
  have c4: "find (\<lambda>u. url_id u = i) (loadPendingUrls s) = Some entry \<and> status entry = Pending \<and>
          fetchAndConvert w (url entry) = Inr (markdown, title) \<and>
          fst (saveMarkdown w (knowledge_base entry) (url entry) title markdown s) = Inl e \<longrightarrow>
            r = Inl e \<and> pending_urls_file s' = pending_urls_file s"
  proof
    assume a: "find (\<lambda>u. url_id u = i) (loadPendingUrls s) = Some entry \<and> status entry = Pending \<and>
          fetchAndConvert w (url entry) = Inr (markdown, title) \<and>
          fst (saveMarkdown w (knowledge_base entry) (url entry) title markdown s) = Inl e"
    obtain s1 where s1: "saveMarkdown w (knowledge_base entry) (url entry) title markdown s = (Inl e, s1)"
      using a by (cases "saveMarkdown w (knowledge_base entry) (url entry) title markdown s") auto
    with a assms have "r = Inl e" "s' = s1" by (auto simp: approveUrl_def)
    with s1 show "r = Inl e \<and> pending_urls_file s' = pending_urls_file s"
      by (auto dest: saveMarkdown_pending)
  qed
  have c5: "pending_urls_file s' \<noteq> pending_urls_file s \<longrightarrow>
            (\<exists>ent md ti p s1 evs. find (\<lambda>u. url_id u = i) (loadPendingUrls s) = Some ent \<and>
               status ent = Pending \<and> fetchAndConvert w (url ent) = Inr (md, ti) \<and>
               saveMarkdown w (knowledge_base ent) (url ent) ti md s = (Inr p, s1) \<and>
               readFile s' p = Some (frontmatter w (url ent) ti @ md) \<and>
               trace s' = trace s @ [MarkdownWritten p, PendingSaved] @ evs \<and>
               s' = snd (server_reindex ev (knowledge_base ent)
                      (log_event PendingSaved
                         (s1\<lparr>pending_urls_file := Listing (mark_approved i (loadPendingUrls s))\<rparr>))) \<and>
               pending_urls_file s' = Listing (mark_approved i (loadPendingUrls s)))"
  proof
    assume ch: "pending_urls_file s' \<noteq> pending_urls_file s"
    show "\<exists>ent md ti p s1 evs. find (\<lambda>u. url_id u = i) (loadPendingUrls s) = Some ent \<and>
               status ent = Pending \<and> fetchAndConvert w (url ent) = Inr (md, ti) \<and>
               saveMarkdown w (knowledge_base ent) (url ent) ti md s = (Inr p, s1) \<and>
               readFile s' p = Some (frontmatter w (url ent) ti @ md) \<and>
               trace s' = trace s @ [MarkdownWritten p, PendingSaved] @ evs \<and>
               s' = snd (server_reindex ev (knowledge_base ent)
                      (log_event PendingSaved
                         (s1\<lparr>pending_urls_file := Listing (mark_approved i (loadPendingUrls s))\<rparr>))) \<and>
               pending_urls_file s' = Listing (mark_approved i (loadPendingUrls s))"
    proof (cases "find (\<lambda>u. url_id u = i) (loadPendingUrls s)")
      case None
      with assms ch show ?thesis by (simp add: approveUrl_def)
    next
      case (Some ent)
      note found = Some
      show ?thesis
      proof (cases "status ent = Pending")
        case False
        with found assms ch show ?thesis by (auto simp: approveUrl_def)
      next
        case True
        show ?thesis
        proof (cases "fetchAndConvert w (url ent)")
          case (Inl e)
          with found True assms ch show ?thesis by (auto simp: approveUrl_def)
        next
          case (Inr mt)
          obtain md ti where mt: "mt = (md, ti)" by (cases mt)
          with Inr have fc: "fetchAndConvert w (url ent) = Inr (md, ti)" by simp
          obtain r1 s1 where sm: "saveMarkdown w (knowledge_base ent) (url ent) ti md s = (r1, s1)"
            by (cases "saveMarkdown w (knowledge_base ent) (url ent) ti md s")
          then have p1: "pending_urls_file s1 = pending_urls_file s" by (rule saveMarkdown_pending)
          show ?thesis
          proof (cases r1)
            case (Inl e)
            with found True fc sm p1 assms ch show ?thesis by (auto simp: approveUrl_def)
          next
            case (Inr p)
            note written = Inr
            obtain r2 s2 where sp: "savePendingUrls w (mark_approved i (loadPendingUrls s)) s1 = (r2, s2)"
              by (cases "savePendingUrls w (mark_approved i (loadPendingUrls s)) s1")
            show ?thesis
            proof (cases r2)
              case (Some e)
              with sp have "s2 = s1" by (auto simp: savePendingUrls_def split: option.splits)
              with Some sp written fc sm p1 True found assms ch
              show ?thesis by (auto simp: approveUrl_def)
            next
              case None
              with sp have s2: "s2 = log_event PendingSaved
                  (s1\<lparr>pending_urls_file := Listing (mark_approved i (loadPendingUrls s))\<rparr>)"
                by (auto simp: savePendingUrls_def split: option.splits)
              then have p2: "pending_urls_file s2 = Listing (mark_approved i (loadPendingUrls s))"
                by (simp add: log_event_def)
              obtain r3 s3 where ri: "server_reindex ev (knowledge_base ent) s2 = (r3, s3)"
                by (cases "server_reindex ev (knowledge_base ent) s2")
              then have p3: "pending_urls_file s3 = pending_urls_file s2" by (rule server_reindex_pending)
              from None sp written fc sm True found assms ri
              have s': "s' = s3" by (cases r3) (auto simp: approveUrl_def)
              from ri have ui: "updateIndex ev (Some (knowledge_base ent)) s2 = (r3, s3)"
                by (simp add: server_reindex_def)
              note sw = saveMarkdown_written [OF sm [unfolded written]]
              from sw have swp: "readFile s1 p = Some (frontmatter w (url ent) ti @ md)" by blast
              from sw have swt: "trace s1 = trace s @ [MarkdownWritten p]" by blast
              from updateIndex_same_files [OF ui] s2 have ft: "fs_tree s3 = fs_tree s1"
                by (simp add: same_files_def log_event_def)
              from same_tree_reads [OF ft, of p] swp
              have rd: "readFile s3 p = Some (frontmatter w (url ent) ti @ md)" by simp
              from swt s2 have "trace s2 = trace s @ [MarkdownWritten p, PendingSaved]"
                by (simp add: log_event_def)
              with updateIndex_grows [OF ui] obtain evs
                where tr: "trace s3 = trace s @ [MarkdownWritten p, PendingSaved] @ evs" by auto
              from ri s2 have fin: "s3 = snd (server_reindex ev (knowledge_base ent)
                      (log_event PendingSaved
                         (s1\<lparr>pending_urls_file := Listing (mark_approved i (loadPendingUrls s))\<rparr>)))"
                by simp
              from p2 p3 have pf: "pending_urls_file s3 = Listing (mark_approved i (loadPendingUrls s))"
                by simp
              from found True fc sm [unfolded written] rd tr fin pf
              have "find (\<lambda>u. url_id u = i) (loadPendingUrls s) = Some ent \<and>
               status ent = Pending \<and> fetchAndConvert w (url ent) = Inr (md, ti) \<and>
               saveMarkdown w (knowledge_base ent) (url ent) ti md s = (Inr p, s1) \<and>
               readFile s3 p = Some (frontmatter w (url ent) ti @ md) \<and>
               trace s3 = trace s @ [MarkdownWritten p, PendingSaved] @ evs \<and>
               s3 = snd (server_reindex ev (knowledge_base ent)
                      (log_event PendingSaved
                         (s1\<lparr>pending_urls_file := Listing (mark_approved i (loadPendingUrls s))\<rparr>))) \<and>
               pending_urls_file s3 = Listing (mark_approved i (loadPendingUrls s))"
                by (intro conjI)
              then show ?thesis unfolding s' by (intro exI)
            qed
          qed
        qed
      qed
    qed
  qed
  from c1 c2 c3 c4 c5 show ?thesis by (intro conjI)
qed

theorem C4_approveUrl_all_or_nothing_witness:
  "approveUrl (server_reindex quiet_env) quiet_web ''u9'' pending_state
     = (Inl (NoPendingUrl ''u9''), pending_state) \<and>
   approveUrl (server_reindex quiet_env) quiet_web ''u2'' pending_state
     = (Inl (WrongStatus ''u2'' Approved), pending_state) \<and>
   approveUrl (server_reindex quiet_env) (quiet_web\<lparr>http_get := no_text\<rparr>) ''u1'' pending_state
     = (Inl (FetchFailed ''https://x/doc''), pending_state) \<and>
   fst (approveUrl (server_reindex quiet_env) quiet_web ''u1'' pending_state)
     = Inr ([''kbs'', ''kb1'', ''x_doc.md''], ''kb1'') \<and>
   pending_urls_file (snd (approveUrl (server_reindex quiet_env) quiet_web ''u1'' pending_state))
     = Listing [rec1\<lparr>status := Approved\<rparr>, rec2] \<and>
   readFile (snd (approveUrl (server_reindex quiet_env) quiet_web ''u1'' pending_state))
       [''kbs'', ''kb1'', ''x_doc.md'']
     = Some (frontmatter quiet_web ''https://x/doc'' ''https://x/doc'' @ ''https://x/doc'') \<and>
   take 2 (trace (snd (approveUrl (server_reindex quiet_env) quiet_web ''u1'' pending_state)))
     = [MarkdownWritten [''kbs'', ''kb1'', ''x_doc.md''], PendingSaved] \<and>
   map source (store_docs (snd (approveUrl (server_reindex quiet_env) quiet_web ''u1'' pending_state)))
     = [[''kbs'', ''kb1'', ''x_doc.md'']]"
  using C4_approveUrl_all_or_nothing
    [where ev = quiet_env and w = quiet_web and i = "''u9''" and s = pending_state
       and r = "fst (approveUrl (server_reindex quiet_env) quiet_web ''u9'' pending_state)"
       and s' = "snd (approveUrl (server_reindex quiet_env) quiet_web ''u9'' pending_state)"
       and entry = rec1 and e = "NoPendingUrl ''u9''" and markdown = "[]" and title = "[]"]
    C4_approveUrl_all_or_nothing
    [where ev = quiet_env and w = quiet_web and i = "''u2''" and s = pending_state
       and r = "fst (approveUrl (server_reindex quiet_env) quiet_web ''u2'' pending_state)"
       and s' = "snd (approveUrl (server_reindex quiet_env) quiet_web ''u2'' pending_state)"
       and entry = rec2 and e = "NoPendingUrl ''u2''" and markdown = "[]" and title = "[]"]
    C4_approveUrl_all_or_nothing
    [where ev = quiet_env and w = quiet_web and i = "''u1''" and s = pending_state
       and r = "fst (approveUrl (server_reindex quiet_env) quiet_web ''u1'' pending_state)"
       and s' = "snd (approveUrl (server_reindex quiet_env) quiet_web ''u1'' pending_state)"
       and entry = rec1 and e = "NoPendingUrl ''u1''" and markdown = "[]" and title = "[]"]
  by (simp add: url_defs data_defs index_defs store_docs_def)

section \<open>rejectUrl: the record is removed\<close>

text \<open>
  C7: \<open>rejectUrl\<close> fails when no record has the id. Otherwise (ids being unique and the
  list file writable) it persists the list without that record, so that a later lookup
  by the id finds nothing and \<open>listPendingUrls\<close> has no record with the id.
\<close>

theorem C7_rejectUrl_removes_record:
  "(i \<notin> url_id ` set (loadPendingUrls s) \<longrightarrow> rejectUrl w i s = (Some (NoPendingUrl i), s)) \<and>
   (i \<in> url_id ` set (loadPendingUrls s) \<and> distinct (map url_id (loadPendingUrls s)) \<and>
    mkdir_pending_dir w = None \<and> write_pending w = None \<longrightarrow>
      fst (rejectUrl w i s) = None \<and>
      pending_urls_file (snd (rejectUrl w i s))
        = Listing (filter (\<lambda>u. url_id u \<noteq> i) (loadPendingUrls s)) \<and>
      find (\<lambda>u. url_id u = i) (loadPendingUrls (snd (rejectUrl w i s))) = None \<and>
      i \<notin> url_id ` set (listPendingUrls (snd (rejectUrl w i s))))"
proof -
  have c1: "i \<notin> url_id ` set (loadPendingUrls s) \<longrightarrow> rejectUrl w i s = (Some (NoPendingUrl i), s)"
  proof
    assume "i \<notin> url_id ` set (loadPendingUrls s)"
    then have "findIndex (\<lambda>u. url_id u = i) (loadPendingUrls s) = None"
      by (auto simp: findIndex_None_iff)
    then show "rejectUrl w i s = (Some (NoPendingUrl i), s)" by (simp add: rejectUrl_def)
  qed
  have c2: "i \<in> url_id ` set (loadPendingUrls s) \<and> distinct (map url_id (loadPendingUrls s)) \<and>
    mkdir_pending_dir w = None \<and> write_pending w = None \<longrightarrow>
      fst (rejectUrl w i s) = None \<and>
      pending_urls_file (snd (rejectUrl w i s))
        = Listing (filter (\<lambda>u. url_id u \<noteq> i) (loadPendingUrls s)) \<and>
      find (\<lambda>u. url_id u = i) (loadPendingUrls (snd (rejectUrl w i s))) = None \<and>
      i \<notin> url_id ` set (listPendingUrls (snd (rejectUrl w i s)))"
  proof
    assume a: "i \<in> url_id ` set (loadPendingUrls s) \<and> distinct (map url_id (loadPendingUrls s)) \<and>
      mkdir_pending_dir w = None \<and> write_pending w = None"
    then obtain idx where idx: "findIndex (\<lambda>u. url_id u = i) (loadPendingUrls s) = Some idx"
      using findIndex_None_iff [of "\<lambda>u. url_id u = i" "loadPendingUrls s"] by fastforce
    with a have sp: "splice1 idx (loadPendingUrls s) = filter (\<lambda>u. url_id u \<noteq> i) (loadPendingUrls s)"
      by (simp add: findIndex_Some_splice)
    from a idx sp have r: "rejectUrl w i s
        = (None, log_event PendingSaved
             (s\<lparr>pending_urls_file := Listing (filter (\<lambda>u. url_id u \<noteq> i) (loadPendingUrls s))\<rparr>))"
      by (simp add: rejectUrl_def savePendingUrls_def)
    have "find (\<lambda>u. url_id u = i) (loadPendingUrls (snd (rejectUrl w i s))) = None"
      by (simp add: r log_event_def loadPendingUrls_def find_None_iff)
    moreover have "i \<notin> url_id ` set (listPendingUrls (snd (rejectUrl w i s)))"
      by (auto simp: r log_event_def loadPendingUrls_def listPendingUrls_def)
    ultimately show "fst (rejectUrl w i s) = None \<and>
      pending_urls_file (snd (rejectUrl w i s))
        = Listing (filter (\<lambda>u. url_id u \<noteq> i) (loadPendingUrls s)) \<and>
      find (\<lambda>u. url_id u = i) (loadPendingUrls (snd (rejectUrl w i s))) = None \<and>
      i \<notin> url_id ` set (listPendingUrls (snd (rejectUrl w i s)))"
      by (simp add: r log_event_def)
  qed
  from c1 c2 show ?thesis by (intro conjI)
qed

theorem C7_rejectUrl_removes_record_witness:
  "rejectUrl quiet_web ''u9'' pending_state = (Some (NoPendingUrl ''u9''), pending_state) \<and>
   fst (rejectUrl quiet_web ''u1'' pending_state) = None \<and>
   pending_urls_file (snd (rejectUrl quiet_web ''u1'' pending_state)) = Listing [rec2] \<and>
   listPendingUrls (snd (rejectUrl quiet_web ''u1'' pending_state)) = [] \<and>
   loadPendingUrls (snd (rejectUrl quiet_web ''u1'' pending_state)) = [rec2]"
  using C7_rejectUrl_removes_record [of "''u9''" pending_state quiet_web]
    C7_rejectUrl_removes_record [of "''u1''" pending_state quiet_web]
  by (simp add: url_defs data_defs)

section \<open>An unusable pending-URLs file\<close>

text \<open>
  C8: a pending-URLs file that is missing, unreadable or not valid JSON is an empty list
  to every operation: \<open>listPendingUrls\<close> returns nothing, \<open>approveUrl\<close> and \<open>rejectUrl\<close>
  find no record and leave the state alone, and \<open>suggestUrl\<close> (the list file being
  writable) succeeds and rewrites the file to hold only the new record.
\<close>

theorem C8_unusable_pending_file_is_empty_list:
  assumes "pending_urls_file s = Missing \<or> pending_urls_file s = Unreadable \<or>
           pending_urls_file s = Malformed txt"
  shows "loadPendingUrls s = [] \<and> listPendingUrls s = [] \<and>
         approveUrl reindex w i s = (Inl (NoPendingUrl i), s) \<and>
         rejectUrl w i s = (Some (NoPendingUrl i), s) \<and>
         (mkdir_pending_dir w = None \<and> write_pending w = None \<longrightarrow>
            fst (suggestUrl w u kb why s)
              = Inr \<lparr>url_id = randomUUID w, url = u, knowledge_base = kb, reason = why,
                      suggested_at = now w, status = Pending\<rparr> \<and>
            pending_urls_file (snd (suggestUrl w u kb why s))
              = Listing [\<lparr>url_id = randomUUID w, url = u, knowledge_base = kb, reason = why,
                      suggested_at = now w, status = Pending\<rparr>])"
  using assms
  by (auto simp: loadPendingUrls_def listPendingUrls_def approveUrl_def rejectUrl_def
      suggestUrl_def savePendingUrls_def log_event_def)

theorem C8_unusable_pending_file_is_empty_list_witness:
  "pending_urls_file (empty_state\<lparr>pending_urls_file := Malformed ''[{''\<rparr>) = Malformed ''[{'' \<and>
   listPendingUrls (empty_state\<lparr>pending_urls_file := Malformed ''[{''\<rparr>) = [] \<and>
   mkdir_pending_dir quiet_web = None \<and> write_pending quiet_web = None \<and>
   pending_urls_file
     (snd (suggestUrl quiet_web ''https://x/doc'' ''kb1'' ''useful''
             (empty_state\<lparr>pending_urls_file := Malformed ''[{''\<rparr>)))
     = Listing [\<lparr>url_id = ''u3'', url = ''https://x/doc'', knowledge_base = ''kb1'',
                 reason = ''useful'', suggested_at = ''2024-01-01T00:00:00.000Z'', status = Pending\<rparr>]"
  using C8_unusable_pending_file_is_empty_list
    [of "empty_state\<lparr>pending_urls_file := Malformed ''[{''\<rparr>" "''[{''"
        "server_reindex quiet_env" quiet_web "''u1''" "''https://x/doc''" "''kb1''" "''useful''"]
  by (simp add: url_defs data_defs)

section \<open>updateIndex on a hidden or missing knowledge base\<close>

text \<open>
  C9, as stated, at a concrete input: the name is the empty string and the
  knowledge-bases root does not exist, so that the name corresponds to no directory.
  \<open>updateIndex\<close> takes the empty name for "no name", lists the root and fails.
\<close>

theorem C9_counterexample:
  "\<not> startsWith_dot [] \<and>
   readdir (fs_tree (empty_state\<lparr>fs_tree := Some []\<rparr>)) (knowledgeBasePath quiet_env []) = None \<and>
   fst (updateIndex quiet_env (Some []) (empty_state\<lparr>fs_tree := Some []\<rparr>)) = Some ReaddirFailed"
  by (simp add: index_defs data_defs)

text \<open>
  C9 (amended): \<open>updateIndex(name)\<close> called with a non-empty name that begins with a
  dot, or for which \<^verbatim>\<open>path.join(KNOWLEDGE_BASES_ROOT_DIR, name)\<close> is not a directory that
  can be listed, returns without error and leaves the whole state as it was: the in-memory
  store, the persisted store file and every hash record. An empty name is the call without
  a name.
\<close>

theorem C9_hidden_or_missing_kb_changes_nothing:
  assumes "name \<noteq> []"
    and "startsWith_dot name \<or> readdir (fs_tree s) (knowledgeBasePath ev name) = None"
  shows "updateIndex ev (Some name) s = (None, s) \<and>
         (readdir (fs_tree s) (knowledgeBasePath ev name) = None \<longrightarrow>
            getFilesRecursively (fs_tree s) (knowledgeBasePath ev name) = []) \<and>
         updateIndex ev (Some []) s = updateIndex ev None s"
  using assms
  by (auto simp: updateIndex_def knowledgeBases_of_def getFilesRecursively_def)

theorem C9_hidden_or_missing_kb_changes_nothing_witness:
  "''nokb'' \<noteq> [] \<and> readdir (fs_tree kb_state) (knowledgeBasePath quiet_env ''nokb'') = None \<and>
   getFilesRecursively (fs_tree kb_state) (knowledgeBasePath quiet_env ''nokb'') = [] \<and>
   updateIndex quiet_env (Some ''nokb'') kb_state = (None, kb_state) \<and>
   startsWith_dot ''.faiss'' \<and>
   updateIndex quiet_env (Some ''.faiss'') kb_state = (None, kb_state) \<and>
   knowledgeBasePath quiet_env ''kb1/nosub'' = [''kbs'', ''kb1'', ''nosub''] \<and>
   readdir (fs_tree kb_state) (knowledgeBasePath quiet_env ''kb1/nosub'') = None \<and>
   updateIndex quiet_env (Some ''kb1/nosub'') kb_state = (None, kb_state)"
  using C9_hidden_or_missing_kb_changes_nothing [of "''nokb''" kb_state quiet_env]
    C9_hidden_or_missing_kb_changes_nothing [of "''.faiss''" kb_state quiet_env]
    C9_hidden_or_missing_kb_changes_nothing [of "''kb1/nosub''" kb_state quiet_env]
  by (simp add: index_defs data_defs)

text \<open>
  A name with a separator names the directory below the knowledge base: it can be listed,
  and its files are indexed.
\<close>

lemma nested_name_is_scanned:
  "knowledgeBasePath quiet_env ''kb1/sub'' = [''kbs'', ''kb1'', ''sub''] \<and>
   readdir (fs_tree kb_state) (knowledgeBasePath quiet_env ''kb1/sub'')
     = Some [FileEnt ''b.txt'' (Some ''h-b'') (Some ''World'')] \<and>
   fst (updateIndex quiet_env (Some ''kb1/sub'') kb_state) = None \<and>
   trace (snd (updateIndex quiet_env (Some ''kb1/sub'') kb_state))
     = [ContentRead [''kbs'', ''kb1'', ''sub'', ''b.txt''],
        EmbedCall [\<lparr>pageContent = ''World'', source = [''kbs'', ''kb1'', ''sub'', ''b.txt'']\<rparr>],
        SaveCall, StoreSaved,
        HashWritten [''kbs'', ''kb1'', ''sub'', ''.index'', ''b.txt''] ''h-b'']"
  by (simp add: index_defs data_defs)

section \<open>A URL whose file name is empty\<close>

text \<open>
  C10: some URLs are sanitized to the empty string, \<open>https://\<close> and
  \<open>http://http://\<close> among them. For every such URL, \<open>addUrl\<close> and \<open>approveUrl\<close>
  write the file \<open>.md\<close> in the target knowledge base: when the call succeeds, the
  returned path is that of \<open>.md\<close> in the knowledge base's directory, the file is there
  with the front matter and the fetched text, no scan of any tree returns its path, and
  the re-index has put no document of that file into the store.
\<close>

theorem C10_empty_filename_never_indexed:
  assumes "sanitizeUrlForFilename u = []"
  shows "(addUrl (server_reindex ev) w u kb s = (Inr p, s') \<longrightarrow>
            p = path_join (web_root_dir w) kb @ [''.md''] \<and> startsWith_dot (last p) \<and>
            (\<exists>md title. fetchAndConvert w u = Inr (md, title) \<and>
               readFile s' p = Some (frontmatter w u title @ md)) \<and>
            p \<notin> set (getFilesRecursively tree dir) \<and>
            (\<forall>d \<in> set (store_docs s'). source d = p \<longrightarrow> d \<in> set (store_docs s))) \<and>
         (find (\<lambda>x. url_id x = i) (loadPendingUrls s) = Some ent \<and> url ent = u \<and>
          approveUrl (server_reindex ev) w i s = (Inr (p, kb'), s') \<longrightarrow>
            p = path_join (web_root_dir w) (knowledge_base ent) @ [''.md''] \<and>
            kb' = knowledge_base ent \<and> startsWith_dot (last p) \<and>
            (\<exists>md title. fetchAndConvert w u = Inr (md, title) \<and>
               readFile s' p = Some (frontmatter w u title @ md)) \<and>
            p \<notin> set (getFilesRecursively tree dir) \<and>
            (\<forall>d \<in> set (store_docs s'). source d = p \<longrightarrow> d \<in> set (store_docs s))) \<and>
         sanitizeUrlForFilename ''https://'' = [] \<and>
         sanitizeUrlForFilename ''http://http://'' = []"
proof -
  have fn: "markdown_filename u = ''.md''"
    using assms by (simp add: markdown_filename_def)
  have written: "p = path_join (web_root_dir w) k @ [''.md''] \<and> startsWith_dot (last p) \<and>
        readFile s2 p = Some (frontmatter w u title @ md) \<and>
        p \<notin> set (getFilesRecursively tree dir) \<and>
        (\<forall>d \<in> set (store_docs s2). source d = p \<longrightarrow> d \<in> set (store_docs s))"
    if sm: "saveMarkdown w k u title md s = (Inr p, s1)"
      and fr: "pending_urls_file s1' = pl \<and> s1' = s1\<lparr>pending_urls_file := pl, trace := tr\<rparr>"
      and ui: "updateIndex ev (Some k) s1' = (r2, s2)"
    for k title md s1 s1' pl tr r2 s2
  proof -
    from saveMarkdown_written [OF sm] fn
    have p: "p = path_join (web_root_dir w) k @ [''.md'']"
      and rd: "readFile s1 p = Some (frontmatter w u title @ md)"
      and st: "faissIndex s1 = faissIndex s"
      by (auto simp: path_join_dot_md)
    from p have lp: "last p = ''.md''" by simp
    from fr have ft: "fs_tree s1' = fs_tree s1" and fi: "faissIndex s1' = faissIndex s1" by auto
    from updateIndex_same_files [OF ui] ft have "fs_tree s2 = fs_tree s1"
      by (simp add: same_files_def)
    from same_tree_reads [OF this, of p] rd
    have rd': "readFile s2 p = Some (frontmatter w u title @ md)" by simp
    have nv: "\<not> visible p" using lp p by (simp add: visible_def)
    then have ns: "p \<notin> set (getFilesRecursively tree dir)"
      by (auto dest: getFilesRecursively_visible)
    from fi st have "store_docs s1' = store_docs s" by (simp add: store_docs_def)
    with updateIndex_sources [OF ui] nv
    have "\<forall>d \<in> set (store_docs s2). source d = p \<longrightarrow> d \<in> set (store_docs s)" by auto
    with p lp rd' ns show ?thesis by simp
  qed
  have a: "addUrl (server_reindex ev) w u kb s = (Inr p, s') \<longrightarrow>
            p = path_join (web_root_dir w) kb @ [''.md''] \<and> startsWith_dot (last p) \<and>
            (\<exists>md title. fetchAndConvert w u = Inr (md, title) \<and>
               readFile s' p = Some (frontmatter w u title @ md)) \<and>
            p \<notin> set (getFilesRecursively tree dir) \<and>
            (\<forall>d \<in> set (store_docs s'). source d = p \<longrightarrow> d \<in> set (store_docs s))"
  proof
    assume ad: "addUrl (server_reindex ev) w u kb s = (Inr p, s')"
    then obtain md title where fc: "fetchAndConvert w u = Inr (md, title)"
      by (cases "fetchAndConvert w u") (auto simp: addUrl_def)
    obtain r1 s1 where sm: "saveMarkdown w kb u title md s = (r1, s1)"
      by (cases "saveMarkdown w kb u title md s")
    with ad fc obtain q where r1: "r1 = Inr q" by (cases r1) (auto simp: addUrl_def)
    obtain r2 s2 where ri: "server_reindex ev kb s1 = (r2, s2)" by (cases "server_reindex ev kb s1")
    with ad fc sm r1 have ps: "q = p" "s2 = s'"
      by (cases r2; auto simp: addUrl_def)+
    from ri have ui: "updateIndex ev (Some kb) s1 = (r2, s')"
      by (simp add: server_reindex_def ps)
    have fr: "pending_urls_file s1 = pending_urls_file s1 \<and>
        s1 = s1\<lparr>pending_urls_file := pending_urls_file s1, trace := trace s1\<rparr>" by simp
    from written [OF sm [unfolded r1 ps] fr ui] fc
    show "p = path_join (web_root_dir w) kb @ [''.md''] \<and> startsWith_dot (last p) \<and>
            (\<exists>md title. fetchAndConvert w u = Inr (md, title) \<and>
               readFile s' p = Some (frontmatter w u title @ md)) \<and>
            p \<notin> set (getFilesRecursively tree dir) \<and>
            (\<forall>d \<in> set (store_docs s'). source d = p \<longrightarrow> d \<in> set (store_docs s))"
      by blast
  qed
  have b: "find (\<lambda>x. url_id x = i) (loadPendingUrls s) = Some ent \<and> url ent = u \<and>
          approveUrl (server_reindex ev) w i s = (Inr (p, kb'), s') \<longrightarrow>
            p = path_join (web_root_dir w) (knowledge_base ent) @ [''.md''] \<and>
            kb' = knowledge_base ent \<and> startsWith_dot (last p) \<and>
            (\<exists>md title. fetchAndConvert w u = Inr (md, title) \<and>
               readFile s' p = Some (frontmatter w u title @ md)) \<and>
            p \<notin> set (getFilesRecursively tree dir) \<and>
            (\<forall>d \<in> set (store_docs s'). source d = p \<longrightarrow> d \<in> set (store_docs s))"
  proof
    assume h: "find (\<lambda>x. url_id x = i) (loadPendingUrls s) = Some ent \<and> url ent = u \<and>
          approveUrl (server_reindex ev) w i s = (Inr (p, kb'), s')"
    then have found: "find (\<lambda>x. url_id x = i) (loadPendingUrls s) = Some ent" and ue: "url ent = u"
      and ap: "approveUrl (server_reindex ev) w i s = (Inr (p, kb'), s')" by simp_all
    from found ap have pe: "status ent = Pending"
      by (cases "status ent = Pending") (auto simp: approveUrl_def)
    from found pe ap ue obtain md title where fc: "fetchAndConvert w u = Inr (md, title)"
      by (cases "fetchAndConvert w u") (auto simp: approveUrl_def)
    obtain r1 s1 where sm: "saveMarkdown w (knowledge_base ent) u title md s = (r1, s1)"
      by (cases "saveMarkdown w (knowledge_base ent) u title md s")
    with found pe ap ue fc obtain q where r1: "r1 = Inr q"
      by (cases r1) (auto simp: approveUrl_def)
    obtain r2 s2 where sp: "savePendingUrls w (mark_approved i (loadPendingUrls s)) s1 = (r2, s2)"
      by (cases "savePendingUrls w (mark_approved i (loadPendingUrls s)) s1")
    with found pe ap ue fc sm r1 have r2: "r2 = None"
      by (cases r2) (auto simp: approveUrl_def)
    with sp have s2: "s2 = s1\<lparr>pending_urls_file := Listing (mark_approved i (loadPendingUrls s)),
        trace := trace s1 @ [PendingSaved]\<rparr>"
      by (auto simp: savePendingUrls_def log_event_def split: option.splits)
    obtain r3 s3 where ri: "server_reindex ev (knowledge_base ent) s2 = (r3, s3)"
      by (cases "server_reindex ev (knowledge_base ent) s2")
    with found pe ap ue fc sm r1 sp r2 have ps: "q = p" "s3 = s'" "kb' = knowledge_base ent"
      by (cases r3; auto simp: approveUrl_def)+
    from ri have ui: "updateIndex ev (Some (knowledge_base ent)) s2 = (r3, s')"
      by (simp add: server_reindex_def ps)
    from s2 have fr: "pending_urls_file s2 = Listing (mark_approved i (loadPendingUrls s)) \<and>
        s2 = s1\<lparr>pending_urls_file := Listing (mark_approved i (loadPendingUrls s)),
          trace := trace s1 @ [PendingSaved]\<rparr>" by simp
    from written [OF sm [unfolded r1 ps(1)] fr ui] fc ps(3)
    show "p = path_join (web_root_dir w) (knowledge_base ent) @ [''.md''] \<and>
            kb' = knowledge_base ent \<and> startsWith_dot (last p) \<and>
            (\<exists>md title. fetchAndConvert w u = Inr (md, title) \<and>
               readFile s' p = Some (frontmatter w u title @ md)) \<and>
            p \<notin> set (getFilesRecursively tree dir) \<and>
            (\<forall>d \<in> set (store_docs s'). source d = p \<longrightarrow> d \<in> set (store_docs s))"
      by blast
  qed
  from a b sanitize_https sanitize_http_twice show ?thesis by (intro conjI)
qed

theorem C10_empty_filename_never_indexed_witness:
  "sanitizeUrlForFilename ''http://http://'' = [] \<and>
   fst (addUrl (server_reindex quiet_env) quiet_web ''http://http://'' ''kb1'' kb_state)
     = Inr [''kbs'', ''kb1'', ''.md''] \<and>
   readFile (snd (addUrl (server_reindex quiet_env) quiet_web ''http://http://'' ''kb1'' kb_state))
       [''kbs'', ''kb1'', ''.md'']
     = Some (frontmatter quiet_web ''http://http://'' ''http://http://'' @ ''http://http://'') \<and>
   faissIndex (snd (addUrl (server_reindex quiet_env) quiet_web ''http://http://'' ''kb1'' kb_state))
     = Some [\<lparr>pageContent = ''# Hello'', source = [''kbs'', ''kb1'', ''a.md'']\<rparr>,
             \<lparr>pageContent = ''World'', source = [''kbs'', ''kb1'', ''sub'', ''b.txt'']\<rparr>] \<and>
   fst (approveUrl (server_reindex quiet_env) quiet_web ''u1''
          (kb_state\<lparr>pending_urls_file := Listing [rec1\<lparr>url := ''http://http://''\<rparr>]\<rparr>))
     = Inr ([''kbs'', ''kb1'', ''.md''], ''kb1'') \<and>
   faissIndex (snd (approveUrl (server_reindex quiet_env) quiet_web ''u1''
          (kb_state\<lparr>pending_urls_file := Listing [rec1\<lparr>url := ''http://http://''\<rparr>]\<rparr>)))
     = Some [\<lparr>pageContent = ''# Hello'', source = [''kbs'', ''kb1'', ''a.md'']\<rparr>,
             \<lparr>pageContent = ''World'', source = [''kbs'', ''kb1'', ''sub'', ''b.txt'']\<rparr>] \<and>
   [''kbs'', ''kb1'', ''.md''] \<notin> set (getFilesRecursively
       (fs_tree (snd (addUrl (server_reindex quiet_env) quiet_web ''http://http://'' ''kb1'' kb_state)))
       [''kbs'', ''kb1''])"
  using C10_empty_filename_never_indexed
    [of "''http://http://''" quiet_env quiet_web "''kb1''" kb_state "[''kbs'', ''kb1'', ''.md'']"
        "snd (addUrl (server_reindex quiet_env) quiet_web ''http://http://'' ''kb1'' kb_state)"
        "fs_tree (snd (addUrl (server_reindex quiet_env) quiet_web ''http://http://'' ''kb1'' kb_state))"
        "[''kbs'', ''kb1'']" "''u1''" "rec1\<lparr>url := ''http://http://''\<rparr>" "''kb1''"]
    C10_empty_filename_never_indexed
    [of "''http://http://''" quiet_env quiet_web "''kb1''"
        "kb_state\<lparr>pending_urls_file := Listing [rec1\<lparr>url := ''http://http://''\<rparr>]\<rparr>"
        "[''kbs'', ''kb1'', ''.md'']"
        "snd (approveUrl (server_reindex quiet_env) quiet_web ''u1''
               (kb_state\<lparr>pending_urls_file := Listing [rec1\<lparr>url := ''http://http://''\<rparr>]\<rparr>))"
        "Some two_kb_tree" "[''kbs'', ''kb1'']" "''u1''" "rec1\<lparr>url := ''http://http://''\<rparr>" "''kb1''"]
  by (simp add: url_defs data_defs index_defs)

section \<open>A file that cannot be read\<close>

text \<open>
  C6 at a concrete input: the knowledge base \<open>kb1\<close> holds \<open>bad.txt\<close>, which cannot be
  read, and then \<open>good.txt\<close>. The hash of \<open>bad.txt\<close> is computed before the guarded
  read is reached and computing it throws: \<open>updateIndex\<close> fails with that error, nothing
  is logged for the file by the loop, and \<open>good.txt\<close> is never looked at. The guarded
  read itself does skip: when \<open>bad.txt\<close> can be hashed and only its text cannot be read,
  the failure is logged and \<open>good.txt\<close> is indexed.
\<close>

theorem C6_unreadable_file_aborts_scan:
  "getFilesRecursively (Some unreadable_tree) (knowledgeBasePath quiet_env ''kb1'')
     = [[''kbs'', ''kb1'', ''bad.txt''], [''kbs'', ''kb1'', ''good.txt'']] \<and>
   calculateSHA256 (empty_state\<lparr>fs_tree := Some unreadable_tree\<rparr>) [''kbs'', ''kb1'', ''bad.txt''] = None \<and>
   readFile (empty_state\<lparr>fs_tree := Some unreadable_tree\<rparr>) [''kbs'', ''kb1'', ''bad.txt''] = None \<and>
   updateIndex quiet_env (Some ''kb1'') (empty_state\<lparr>fs_tree := Some unreadable_tree\<rparr>)
     = (Some (ReadFailed [''kbs'', ''kb1'', ''bad.txt'']),
        empty_state\<lparr>fs_tree := Some unreadable_tree\<rparr>) \<and>
   updateIndex quiet_env None (empty_state\<lparr>fs_tree := Some unreadable_tree\<rparr>)
     = (Some (ReadFailed [''kbs'', ''kb1'', ''bad.txt'']),
        empty_state\<lparr>fs_tree := Some unreadable_tree\<rparr>) \<and>
   fst (updateIndex quiet_env (Some ''kb1'') (empty_state\<lparr>fs_tree := Some vanishing_tree\<rparr>)) = None \<and>
   trace (snd (updateIndex quiet_env (Some ''kb1'') (empty_state\<lparr>fs_tree := Some vanishing_tree\<rparr>)))
     = [ContentRead [''kbs'', ''kb1'', ''bad.txt''], LoggedError [''kbs'', ''kb1'', ''bad.txt''],
        ContentRead [''kbs'', ''kb1'', ''good.txt''],
        EmbedCall [\<lparr>pageContent = ''World'', source = [''kbs'', ''kb1'', ''good.txt'']\<rparr>],
        SaveCall, StoreSaved, HashWritten [''kbs'', ''kb1'', ''.index'', ''good.txt''] ''h-2'']"
  by (simp add: index_defs data_defs)

section \<open>updateIndex twice, nothing changed in between\<close>



section \<open>The hash record is written after the store is saved\<close>

text \<open>
  C3: in the loop body of \<open>updateIndex\<close>, the hash record of a changed file whose chunks
  were added to the store is written only after the store save has succeeded: whenever the
  body changes the hash records, the save did not fail, the store file holds the store
  with the new chunks, and the trace ends with the save followed by the hash write. If the
  store save fails, the body and the scan end with that error and the hash records and the
  store file are as before. Over a whole \<open>updateIndex\<close>, a hash record changes only for
  a scanned file whose save did not fail.
\<close>

theorem C3_hash_written_after_save:
  "(processFile ev kb f s = (r, s') \<longrightarrow>
      (save_index ev f \<noteq> None \<longrightarrow> hash_files s' = hash_files s) \<and>
      (hash_files s' \<noteq> hash_files s \<longrightarrow>
         r = None \<and> save_index ev f = None \<and>
         (\<exists>h docs. calculateSHA256 s f = Some h \<and> docs \<noteq> [] \<and>
            hash_files s' = (hash_files s)(indexFilePath kb f \<mapsto> h) \<and>
            index_file s' = Some (store_docs s @ docs) \<and> faissIndex s' = index_file s' \<and>
            trace s' = trace s @ [ContentRead f, EmbedCall docs, SaveCall, StoreSaved,
                                  HashWritten (indexFilePath kb f) h]))) \<and>
   (calculateSHA256 s f = Some h \<and> mkdir_index_dir ev (indexDirPath kb f) = None \<and>
    hash_files s (indexFilePath kb f) \<noteq> Some h \<and> readFile s f = Some c \<and>
    createDocuments ev f c = Some docs \<and> docs \<noteq> [] \<and> \<not> embed_fails ev f \<and>
    save_index ev f = Some e \<longrightarrow>
      fst (processFile ev kb f s) = Some (handleFsOperationError ''save FAISS index at'' e) \<and>
      fst (processFiles ev kb (f # rest) s) = Some (handleFsOperationError ''save FAISS index at'' e) \<and>
      hash_files (snd (processFiles ev kb (f # rest) s)) = hash_files s \<and>
      index_file (snd (processFiles ev kb (f # rest) s)) = index_file s) \<and>
   (updateIndex ev kbo s0 = (r0, s0') \<and> hash_files s0' key \<noteq> hash_files s0 key \<longrightarrow>
      (\<exists>k g. g \<in> set (getFilesRecursively (fs_tree s0) (knowledgeBasePath ev k)) \<and> key = indexFilePath (knowledgeBasePath ev k) g \<and>
         save_index ev g = None))"
proof -
  have a: "processFile ev kb f s = (r, s') \<longrightarrow>
      (save_index ev f \<noteq> None \<longrightarrow> hash_files s' = hash_files s) \<and>
      (hash_files s' \<noteq> hash_files s \<longrightarrow>
         r = None \<and> save_index ev f = None \<and>
         (\<exists>h docs. calculateSHA256 s f = Some h \<and> docs \<noteq> [] \<and>
            hash_files s' = (hash_files s)(indexFilePath kb f \<mapsto> h) \<and>
            index_file s' = Some (store_docs s @ docs) \<and> faissIndex s' = index_file s' \<and>
            trace s' = trace s @ [ContentRead f, EmbedCall docs, SaveCall, StoreSaved,
                                  HashWritten (indexFilePath kb f) h]))"
  proof
    assume p: "processFile ev kb f s = (r, s')"
    have ch: "hash_files s' \<noteq> hash_files s \<longrightarrow>
         r = None \<and> save_index ev f = None \<and>
         (\<exists>h docs. calculateSHA256 s f = Some h \<and> docs \<noteq> [] \<and>
            hash_files s' = (hash_files s)(indexFilePath kb f \<mapsto> h) \<and>
            index_file s' = Some (store_docs s @ docs) \<and> faissIndex s' = index_file s' \<and>
            trace s' = trace s @ [ContentRead f, EmbedCall docs, SaveCall, StoreSaved,
                                  HashWritten (indexFilePath kb f) h])"
    proof
      assume d: "hash_files s' \<noteq> hash_files s"
      show "r = None \<and> save_index ev f = None \<and>
         (\<exists>h docs. calculateSHA256 s f = Some h \<and> docs \<noteq> [] \<and>
            hash_files s' = (hash_files s)(indexFilePath kb f \<mapsto> h) \<and>
            index_file s' = Some (store_docs s @ docs) \<and> faissIndex s' = index_file s' \<and>
            trace s' = trace s @ [ContentRead f, EmbedCall docs, SaveCall, StoreSaved,
                                  HashWritten (indexFilePath kb f) h])"
      proof (cases "\<exists>h c docs. calculateSHA256 s f = Some h \<and> mkdir_index_dir ev (indexDirPath kb f) = None
          \<and> hash_files s (indexFilePath kb f) \<noteq> Some h \<and> readFile s f = Some c
          \<and> createDocuments ev f c = Some docs")
        case True
        then obtain h c docs where h: "calculateSHA256 s f = Some h"
          "mkdir_index_dir ev (indexDirPath kb f) = None"
          "hash_files s (indexFilePath kb f) \<noteq> Some h" "readFile s f = Some c"
          "createDocuments ev f c = Some docs" by blast
        with p have ix: "indexDocuments ev kb f h docs (log_event (ContentRead f) s) = (r, s')"
          by (simp add: processFile_def)
        from d have "hash_files s' \<noteq> hash_files (log_event (ContentRead f) s)"
          by (simp add: log_event_def)
        from indexDocuments_trace [OF ix this] h(1) show ?thesis
          by (auto simp: log_event_def store_docs_def)
      next
        case False
        with p have "hash_files s' = hash_files s"
          by (auto simp: processFile_def log_event_def split: option.splits if_splits)
        with d show ?thesis by simp
      qed
    qed
    have sf: "save_index ev f \<noteq> None \<longrightarrow> hash_files s' = hash_files s"
    proof (rule impI, rule ccontr)
      assume "save_index ev f \<noteq> None" and "hash_files s' \<noteq> hash_files s"
      with ch show False by simp
    qed
    from sf ch show "(save_index ev f \<noteq> None \<longrightarrow> hash_files s' = hash_files s) \<and>
      (hash_files s' \<noteq> hash_files s \<longrightarrow>
         r = None \<and> save_index ev f = None \<and>
         (\<exists>h docs. calculateSHA256 s f = Some h \<and> docs \<noteq> [] \<and>
            hash_files s' = (hash_files s)(indexFilePath kb f \<mapsto> h) \<and>
            index_file s' = Some (store_docs s @ docs) \<and> faissIndex s' = index_file s' \<and>
            trace s' = trace s @ [ContentRead f, EmbedCall docs, SaveCall, StoreSaved,
                                  HashWritten (indexFilePath kb f) h]))" by (rule conjI)
  qed
  have b: "calculateSHA256 s f = Some h \<and> mkdir_index_dir ev (indexDirPath kb f) = None \<and>
    hash_files s (indexFilePath kb f) \<noteq> Some h \<and> readFile s f = Some c \<and>
    createDocuments ev f c = Some docs \<and> docs \<noteq> [] \<and> \<not> embed_fails ev f \<and>
    save_index ev f = Some e \<longrightarrow>
      fst (processFile ev kb f s) = Some (handleFsOperationError ''save FAISS index at'' e) \<and>
      fst (processFiles ev kb (f # rest) s) = Some (handleFsOperationError ''save FAISS index at'' e) \<and>
      hash_files (snd (processFiles ev kb (f # rest) s)) = hash_files s \<and>
      index_file (snd (processFiles ev kb (f # rest) s)) = index_file s"
    by (simp add: processFile_def indexDocuments_def save_call_def add_to_store_def embed_call_def
        log_event_def)
  have c: "updateIndex ev kbo s0 = (r0, s0') \<and> hash_files s0' key \<noteq> hash_files s0 key \<longrightarrow>
      (\<exists>k g. g \<in> set (getFilesRecursively (fs_tree s0) (knowledgeBasePath ev k)) \<and> key = indexFilePath (knowledgeBasePath ev k) g \<and>
         save_index ev g = None)"
    using updateIndex_hash_change by blast
  from a b c show ?thesis by (intro conjI)
qed

theorem C3_hash_written_after_save_witness:
  "fst (updateIndex (quiet_env\<lparr>save_index := save_denied_for [''kbs'', ''kb1'', ''a.md'']\<rparr>) (Some ''kb1'') kb_state)
     = Some (PermissionDenied ''save FAISS index at'') \<and>
   hash_files (snd (updateIndex (quiet_env\<lparr>save_index := save_denied_for [''kbs'', ''kb1'', ''a.md'']\<rparr>)
       (Some ''kb1'') kb_state)) [''kbs'', ''kb1'', ''.index'', ''a.md''] = None \<and>
   index_file (snd (updateIndex (quiet_env\<lparr>save_index := save_denied_for [''kbs'', ''kb1'', ''a.md'']\<rparr>)
       (Some ''kb1'') kb_state)) = None \<and>
   fst (processFile quiet_env [''kbs'', ''kb1''] [''kbs'', ''kb1'', ''a.md''] kb_state) = None \<and>
   hash_files (snd (processFile quiet_env [''kbs'', ''kb1''] [''kbs'', ''kb1'', ''a.md''] kb_state))
       [''kbs'', ''kb1'', ''.index'', ''a.md''] = Some ''h-a'' \<and>
   trace (snd (processFile quiet_env [''kbs'', ''kb1''] [''kbs'', ''kb1'', ''a.md''] kb_state))
     = [ContentRead [''kbs'', ''kb1'', ''a.md''],
        EmbedCall [\<lparr>pageContent = ''# Hello'', source = [''kbs'', ''kb1'', ''a.md'']\<rparr>],
        SaveCall, StoreSaved, HashWritten [''kbs'', ''kb1'', ''.index'', ''a.md''] ''h-a'']"
  using C3_hash_written_after_save
    [of "quiet_env\<lparr>save_index := save_denied_for [''kbs'', ''kb1'', ''a.md'']\<rparr>" "[''kbs'', ''kb1'']" "[''kbs'', ''kb1'', ''a.md'']"
        kb_state
        "fst (processFile (quiet_env\<lparr>save_index := save_denied_for [''kbs'', ''kb1'', ''a.md'']\<rparr>) [''kbs'', ''kb1'']
                [''kbs'', ''kb1'', ''a.md''] kb_state)"
        "snd (processFile (quiet_env\<lparr>save_index := save_denied_for [''kbs'', ''kb1'', ''a.md'']\<rparr>) [''kbs'', ''kb1'']
                [''kbs'', ''kb1'', ''a.md''] kb_state)"
        "''h-a''" "''# Hello''" "[\<lparr>pageContent = ''# Hello'', source = [''kbs'', ''kb1'', ''a.md'']\<rparr>]" EACCES
        "[[''kbs'', ''kb1'', ''sub'', ''b.txt'']]" "Some ''kb1''" kb_state
        "fst (updateIndex (quiet_env\<lparr>save_index := save_denied_for [''kbs'', ''kb1'', ''a.md'']\<rparr>) (Some ''kb1'') kb_state)"
        "snd (updateIndex (quiet_env\<lparr>save_index := save_denied_for [''kbs'', ''kb1'', ''a.md'']\<rparr>) (Some ''kb1'') kb_state)"
        "[''kbs'', ''kb1'', ''.index'', ''a.md'']"]
    C3_hash_written_after_save
    [of quiet_env "[''kbs'', ''kb1'']" "[''kbs'', ''kb1'', ''a.md'']" kb_state
        "fst (processFile quiet_env [''kbs'', ''kb1''] [''kbs'', ''kb1'', ''a.md''] kb_state)"
        "snd (processFile quiet_env [''kbs'', ''kb1''] [''kbs'', ''kb1'', ''a.md''] kb_state)"
        "''h-a''" "''# Hello''" "[\<lparr>pageContent = ''# Hello'', source = [''kbs'', ''kb1'', ''a.md'']\<rparr>]" EACCES
        "[]" "Some ''kb1''" kb_state
        "fst (updateIndex quiet_env (Some ''kb1'') kb_state)"
        "snd (updateIndex quiet_env (Some ''kb1'') kb_state)"
        "[''kbs'', ''kb1'', ''.index'', ''a.md'']"]
  by (simp add: index_defs data_defs)

end
